theory Spec2Isabelle
  imports Complex_Main
begin

section \<open>Python values and exceptions\<close>

text \<open>
  Exceptions of the Python source are values: a function that can raise returns
  \<open>error + 'a\<close>, with \<open>Inl\<close> carrying the exception. Python integers are
  unbounded and are modelled by \<open>int\<close>; floor division and remainder of Python
  agree with \<open>div\<close> and \<open>mod\<close> on \<open>int\<close>.
\<close>

datatype error =
    ValueError string
  | ZeroDivisionError
  | KeyError
  | AttributeError
  | IndexError

definition map_res :: "('a \<Rightarrow> 'b) \<Rightarrow> error + 'a \<Rightarrow> error + 'b" where
  "map_res f r = (case r of Inl e \<Rightarrow> Inl e | Inr v \<Rightarrow> Inr (f v))"

definition bind_res :: "error + 'a \<Rightarrow> ('a \<Rightarrow> error + 'b) \<Rightarrow> error + 'b" where
  "bind_res r f = (case r of Inl e \<Rightarrow> Inl e | Inr v \<Rightarrow> f v)"

definition floordiv :: "int \<Rightarrow> int \<Rightarrow> error + int" where
  "floordiv a b = (if b = 0 then Inl ZeroDivisionError else Inr (a div b))"

section \<open>Tick subdivision catalog\<close>

type_synonym TickFactors = "int \<times> int \<times> int"

definition TF_BY_MIN :: "(int \<times> TickFactors) list" where
  "TF_BY_MIN =
    [(500, (10, 10, 5)),
     (250, (10, 5, 5)),
     (100, (10, 2, 5)),
     (50, (2, 5, 5)),
     (25, (1, 5, 5)),
     (20, (2, 5, 2)),
     (10, (2, 5, 1)),
     (5, (1, 5, 1)),
     (2, (1, 2, 1)),
     (1, (1, 1, 1))]"

text \<open>Subscripting the catalog, \<open>TF_BY_MIN[i]\<close>: a missing key raises.\<close>

definition TF_BY_MIN_get :: "int \<Rightarrow> error + TickFactors" where
  "TF_BY_MIN_get i = (case map_of TF_BY_MIN i of None \<Rightarrow> Inl KeyError | Some f \<Rightarrow> Inr f)"

text \<open>\<open>TF_MIN = sorted(TF_BY_MIN.keys(), reverse=True)\<close>.\<close>

definition TF_MIN :: "int list" where
  "TF_MIN = rev (sort (map fst TF_BY_MIN))"

text \<open>
  \<open>t_s\<close>, tick iterative subdivision: each level divides the previous one by its
  factor, and a factor of 1 leaves the step as it is. A factor of 0 raises.
\<close>

definition t_s :: "int \<Rightarrow> TickFactors \<Rightarrow> error + (int \<times> int \<times> int \<times> int)" where
  "t_s s1 f =
    (case f of (f0, f1, f2) \<Rightarrow>
      (case (if f0 = 1 then Inr s1 else floordiv s1 f0) of
         Inl e \<Rightarrow> Inl e
       | Inr s2 \<Rightarrow>
          (case (if f1 = 1 then Inr s2 else floordiv s2 f1) of
             Inl e \<Rightarrow> Inl e
           | Inr s3 \<Rightarrow>
              (case (if f2 = 1 then Inr s3 else floordiv s3 f2) of
                 Inl e \<Rightarrow> Inl e
               | Inr s4 \<Rightarrow> Inr (s1, s2, s3, s4)))))"

section \<open>Transforms and scales\<close>

text \<open>
  Python floats are modelled by \<open>real\<close>: the model computes with exact reals where the
  program rounds. A transform function that raises on an argument outside its
  mathematical domain returns \<open>Inl\<close>. An infinite bound of the domain
  (\<open>-math.inf\<close>, \<open>math.inf\<close>) is \<open>None\<close>.
\<close>

record ScaleFN =
  fn :: "real \<Rightarrow> error + real"
  inverse_fn :: "real \<Rightarrow> error + real"
  is_increasing :: bool
  min_x :: "real option"
  max_x :: "real option"

text \<open>
  A \<open>Scale\<close>, with the fields the modelled functions read. \<open>gen_fn\<close> and
  \<open>pos_fn\<close> are set from the scaler when the object is built.
\<close>

record Scale =
  left_sym :: string
  right_sym :: string
  scaler :: ScaleFN
  shift :: real
  key :: string
  on_slide :: bool
  opp_key :: "string option"

definition gen_fn :: "Scale \<Rightarrow> real \<Rightarrow> error + real" where
  "gen_fn sc = fn (scaler sc)"

definition pos_fn :: "Scale \<Rightarrow> real \<Rightarrow> error + real" where
  "pos_fn sc = inverse_fn (scaler sc)"

text \<open>\<open>math.log10\<close> raises outside the positive reals; \<open>math.pow(TEN, p)\<close> is total here.\<close>

definition gen_base :: "real \<Rightarrow> error + real" where
  "gen_base x = (if 0 < x then Inr (log 10 x) else Inl (ValueError ''math domain error''))"

definition pos_base :: "real \<Rightarrow> real" where
  "pos_base p = 10 powr p"

definition \<epsilon> :: real where
  "\<epsilon> = 1 / 10 ^ 20"

text \<open>The transforms of \<open>ScaleFNs\<close> that are built from \<open>gen_base\<close> and \<open>pos_base\<close> alone.\<close>

definition ScaleFNs_Unit :: ScaleFN where
  "ScaleFNs_Unit = \<lparr>fn = (\<lambda>x. Inr x), inverse_fn = (\<lambda>p. Inr p),
     is_increasing = True, min_x = None, max_x = None\<rparr>"

definition ScaleFNs_Base :: ScaleFN where
  "ScaleFNs_Base = \<lparr>fn = gen_base, inverse_fn = (\<lambda>p. Inr (pos_base p)),
     is_increasing = True, min_x = Some \<epsilon>, max_x = None\<rparr>"

definition ScaleFNs_Square :: ScaleFN where
  "ScaleFNs_Square = \<lparr>fn = (\<lambda>x. map_res (\<lambda>y. y / 2) (gen_base x)),
     inverse_fn = (\<lambda>p. Inr (pos_base (p * 2))),
     is_increasing = True, min_x = None, max_x = None\<rparr>"

definition ScaleFNs_Cube :: ScaleFN where
  "ScaleFNs_Cube = \<lparr>fn = (\<lambda>x. map_res (\<lambda>y. y / 3) (gen_base x)),
     inverse_fn = (\<lambda>p. Inr (pos_base (p * 3))),
     is_increasing = True, min_x = None, max_x = None\<rparr>"

definition ScaleFNs_Inverse :: ScaleFN where
  "ScaleFNs_Inverse = \<lparr>fn = (\<lambda>x. map_res (\<lambda>y. 1 - y) (gen_base x)),
     inverse_fn = (\<lambda>p. Inr (pos_base (1 - p))),
     is_increasing = False, min_x = Some \<epsilon>, max_x = None\<rparr>"

definition ScaleFNs_InverseSquare :: ScaleFN where
  "ScaleFNs_InverseSquare = \<lparr>fn = (\<lambda>x. map_res (\<lambda>y. 1 - y / 2) (gen_base x)),
     inverse_fn = (\<lambda>p. Inr (pos_base (1 - p * 2))),
     is_increasing = False, min_x = Some \<epsilon>, max_x = None\<rparr>"

definition ScaleFNs_SquareRoot :: ScaleFN where
  "ScaleFNs_SquareRoot = \<lparr>fn = (\<lambda>x. map_res (\<lambda>y. y * 2) (gen_base x)),
     inverse_fn = (\<lambda>p. Inr (pos_base (p / 2))),
     is_increasing = True, min_x = Some \<epsilon>, max_x = None\<rparr>"

definition ScaleFNs_CubeRoot :: ScaleFN where
  "ScaleFNs_CubeRoot = \<lparr>fn = (\<lambda>x. map_res (\<lambda>y. y * 3) (gen_base x)),
     inverse_fn = (\<lambda>p. Inr (pos_base (p / 3))),
     is_increasing = True, min_x = Some \<epsilon>, max_x = None\<rparr>"

definition ScaleFNs_Log10 :: ScaleFN where
  "ScaleFNs_Log10 = \<lparr>fn = (\<lambda>x. Inr (x / 10)), inverse_fn = (\<lambda>p. Inr (p * 10)),
     is_increasing = True, min_x = Some \<epsilon>, max_x = None\<rparr>"

definition position_of :: "ScaleFN \<Rightarrow> real \<Rightarrow> error + real" where
  "position_of F v = fn F v"

definition value_at :: "ScaleFN \<Rightarrow> real \<Rightarrow> error + real" where
  "value_at F position = inverse_fn F position"

text \<open>\<open>clamp(x, min_value, max_value) = max(min(x, max_value), min_value)\<close>.\<close>

definition clamp :: "real \<Rightarrow> real option \<Rightarrow> real option \<Rightarrow> real" where
  "clamp x min_value max_value =
     (let y = (case max_value of None \<Rightarrow> x | Some hi \<Rightarrow> min x hi)
      in (case min_value of None \<Rightarrow> y | Some lo \<Rightarrow> max y lo))"

definition clamp_input :: "ScaleFN \<Rightarrow> real \<Rightarrow> real" where
  "clamp_input F x = clamp x (min_x F) (max_x F)"

text \<open>
  Scales of the class \<open>Scales\<close> on these transforms. Their symbols are written in
  ASCII.
\<close>

definition mk_scale ::
  "string \<Rightarrow> string \<Rightarrow> ScaleFN \<Rightarrow> bool \<Rightarrow> string option \<Rightarrow> Scale" where
  "mk_scale l r f sl opp =
     \<lparr>left_sym = l, right_sym = r, scaler = f, shift = 0, key = l,
      on_slide = sl, opp_key = opp\<rparr>"

definition Scales_A :: Scale where
  "Scales_A = mk_scale ''A'' ''x^2'' ScaleFNs_Square False (Some ''B'')"

definition Scales_B :: Scale where
  "Scales_B = mk_scale ''B'' ''x^2_y'' ScaleFNs_Square True (Some ''A'')"

definition Scales_BI :: Scale where
  "Scales_BI = mk_scale ''BI'' ''1/x^2_y'' ScaleFNs_InverseSquare True None"

definition Scales_C :: Scale where
  "Scales_C = mk_scale ''C'' ''x_y'' ScaleFNs_Base True (Some ''D'')"

definition Scales_CI :: Scale where
  "Scales_CI = mk_scale ''CI'' ''1/x_y'' ScaleFNs_Inverse True (Some ''DI'')"

definition Scales_D :: Scale where
  "Scales_D = mk_scale ''D'' ''x'' ScaleFNs_Base False (Some ''C'')"

definition Scales_DI :: Scale where
  "Scales_DI = mk_scale ''DI'' ''1/x'' ScaleFNs_Inverse False (Some ''CI'')"

definition Scales_K :: Scale where
  "Scales_K = mk_scale ''K'' ''x^3'' ScaleFNs_Cube False None"

definition Scales_L :: Scale where
  "Scales_L = mk_scale ''L'' ''log x'' ScaleFNs_Log10 False None"

definition frac_pos_of :: "Scale \<Rightarrow> real \<Rightarrow> real \<Rightarrow> error + real" where
  "frac_pos_of sc x shift_adj = map_res (\<lambda>y. shift sc + shift_adj + y) (gen_fn sc x)"

definition value_at_frac_pos :: "Scale \<Rightarrow> real \<Rightarrow> real \<Rightarrow> error + real" where
  "value_at_frac_pos sc frac_pos shift_adj = pos_fn sc (frac_pos - shift sc - shift_adj)"

definition value_at_start :: "Scale \<Rightarrow> error + real" where
  "value_at_start sc = value_at_frac_pos sc 0 0"

definition value_at_end :: "Scale \<Rightarrow> error + real" where
  "value_at_end sc = value_at_frac_pos sc 1 0"

definition offset_between :: "Scale \<Rightarrow> real \<Rightarrow> real \<Rightarrow> real \<Rightarrow> error + real" where
  "offset_between sc x_start x_end scale_width =
     bind_res (frac_pos_of sc (clamp_input (scaler sc) x_end) 0) (\<lambda>pe.
     bind_res (frac_pos_of sc (clamp_input (scaler sc) x_start) 0) (\<lambda>ps.
       Inr (\<bar>pe - ps\<bar> * scale_width)))"

definition min_offset_for_delta ::
  "Scale \<Rightarrow> real \<Rightarrow> real \<Rightarrow> real \<Rightarrow> real \<Rightarrow> error + real" where
  "min_offset_for_delta sc x_start x_end x_delta scale_width =
     bind_res (offset_between sc x_start (x_start + x_delta) scale_width) (\<lambda>a.
     bind_res (offset_between sc (x_end - x_delta) x_end scale_width) (\<lambda>b.
       Inr (min a b)))"

text \<open>\<open>round\<close> of a float rounds a half to the even neighbour.\<close>

definition py_round :: "real \<Rightarrow> int" where
  "py_round r =
     (let f = \<lfloor>r\<rfloor>
      in if r - of_int f < 1 / 2 then f
         else if 1 / 2 < r - of_int f then f + 1
         else if even f then f else f + 1)"

definition scale_to :: "Scale \<Rightarrow> real \<Rightarrow> int \<Rightarrow> error + int" where
  "scale_to sc x scale_w = map_res (\<lambda>p. py_round (of_int scale_w * p)) (frac_pos_of sc x 0)"

record Ruler =
  ruler_key :: string
  tick_pattern :: TickFactors
  left_offset :: real
  num_units :: int
  pixels_per_unit :: real

definition PixelsPerCM :: real where
  "PixelsPerCM = 1600 / 6"

definition PixelsPerIN :: real where
  "PixelsPerIN = PixelsPerCM * 2.54"

text \<open>
  An attribute of a namespace object is a scale, a ruler or any other Python value; of
  another value the model keeps its truth value. A namespace maps the names of its
  attributes to them. A class, besides the attributes written in its body, has those
  that every class has (\<open>__doc__\<close>, \<open>__module__\<close>, \<open>__init__\<close> and so on): the
  interpreter decides which, so they are a parameter \<open>class_attrs\<close>, each with the truth
  value of its value.
\<close>

datatype pyattr = ScaleAttr Scale | RulerAttr Ruler | OtherAttr bool

type_synonym namespace = "string \<rightharpoonup> pyattr"

definition class_namespace :: "(string \<rightharpoonup> bool) \<Rightarrow> (string \<times> pyattr) list \<Rightarrow> namespace" where
  "class_namespace class_attrs body name =
     (case map_of body name of
        Some a \<Rightarrow> Some a
      | None \<Rightarrow> map_option OtherAttr (class_attrs name))"

text \<open>A namespace class that holds the nine scales above under their names in \<open>Scales\<close>.\<close>

definition Scales_sample :: "(string \<rightharpoonup> bool) \<Rightarrow> namespace" where
  "Scales_sample class_attrs = class_namespace class_attrs
     [(''A'', ScaleAttr Scales_A), (''B'', ScaleAttr Scales_B), (''BI'', ScaleAttr Scales_BI),
      (''C'', ScaleAttr Scales_C), (''CI'', ScaleAttr Scales_CI), (''D'', ScaleAttr Scales_D),
      (''DI'', ScaleAttr Scales_DI), (''K'', ScaleAttr Scales_K), (''L'', ScaleAttr Scales_L)]"

text \<open>
  The class \<open>Rulers\<close>. The catalog entries \<open>TF_BY_MIN[10]\<close>, \<open>TF_BY_MIN[20]\<close> and
  \<open>TF_BY_MIN[50]\<close> are written out.
\<close>

definition Rulers :: "(string \<rightharpoonup> bool) \<Rightarrow> namespace" where
  "Rulers class_attrs = class_namespace class_attrs
    [(''PT'', RulerAttr \<lparr>ruler_key = ''pt'', tick_pattern = (2, 5, 1), left_offset = 0,
               num_units = 25 * 72, pixels_per_unit = of_int \<lfloor>PixelsPerIN / 72\<rfloor>\<rparr>),
     (''CM'', RulerAttr \<lparr>ruler_key = ''cm'', tick_pattern = (2, 5, 2), left_offset = 1.5,
               num_units = 30, pixels_per_unit = PixelsPerCM\<rparr>),
     (''IN_DEC'', RulerAttr \<lparr>ruler_key = ''in'', tick_pattern = (2, 5, 5), left_offset = 0.5,
               num_units = 12, pixels_per_unit = PixelsPerIN\<rparr>),
     (''IN_BIN'', RulerAttr \<lparr>ruler_key = ''in'', tick_pattern = (4, 4, 4), left_offset = 0.5,
               num_units = 12, pixels_per_unit = PixelsPerIN\<rparr>),
     (''IN'', RulerAttr \<lparr>ruler_key = ''in'', tick_pattern = (2, 5, 5), left_offset = 0.5,
               num_units = 12, pixels_per_unit = PixelsPerIN\<rparr>)]"

section \<open>Layout: parsing\<close>

datatype Side = FRONT | REAR

datatype RulePart = STATOR_TOP | SLIDE | STATOR_BOTTOM

datatype Align = UPPER | LOWER

text \<open>
  Strings are lists of characters; a character stands for a code point below 256.
  \<open>py_isspace\<close> lists the whitespace among them, which \<open>str.strip()\<close> removes.
\<close>

definition py_isspace :: "char \<Rightarrow> bool" where
  "py_isspace c = (c \<in> set [CHR 0x09, CHR 0x0A, CHR 0x0B, CHR 0x0C, CHR 0x0D,
                              CHR 0x1C, CHR 0x1D, CHR 0x1E, CHR 0x1F, CHR '' '',
                              CHR 0x85, CHR 0xA0])"

text \<open>\<open>s.strip(chars)\<close>: drop the characters of a class from both ends.\<close>

definition strip_chars :: "(char \<Rightarrow> bool) \<Rightarrow> string \<Rightarrow> string" where
  "strip_chars P s = rev (dropWhile P (rev (dropWhile P s)))"

text \<open>
  \<open>s.split(sep, n)\<close> for a one-character separator and \<open>re.split(cls, s, n)\<close> for a
  one-character class: cut at the first \<open>n\<close> separators.
\<close>

fun split_max :: "(char \<Rightarrow> bool) \<Rightarrow> nat \<Rightarrow> string \<Rightarrow> string list" where
  "split_max P 0 s = [s]"
| "split_max P (Suc n) s =
     (case dropWhile (\<lambda>c. \<not> P c) s of
        [] \<Rightarrow> [s]
      | _ # rest \<Rightarrow> takeWhile (\<lambda>c. \<not> P c) s # split_max P n rest)"

text \<open>
  \<open>re.split(r'[, ]+', s)\<close>: cut at every maximal run of separator characters. A run at
  the start or at the end of the string leaves an empty piece there.
\<close>

fun re_split_runs :: "(char \<Rightarrow> bool) \<Rightarrow> bool \<Rightarrow> string \<Rightarrow> string \<Rightarrow> string list" where
  "re_split_runs P in_sep cur [] = [rev cur]"
| "re_split_runs P in_sep cur (c # cs) =
     (if P c then (if in_sep then re_split_runs P True cur cs
                   else rev cur # re_split_runs P True [] cs)
      else re_split_runs P False (c # cur) cs)"

definition is_linebreak :: "char \<Rightarrow> bool" where
  "is_linebreak c = (c \<in> set [CHR 0x0A, CHR 0x0B, CHR 0x0C, CHR 0x0D,
                                CHR 0x1C, CHR 0x1D, CHR 0x1E, CHR 0x85])"

text \<open>
  \<open>str.splitlines()\<close>: a carriage return followed by a line feed is one line break, and
  a line break at the very end opens no further line.
\<close>

fun splitlines_from :: "string \<Rightarrow> string \<Rightarrow> string list" where
  "splitlines_from cur [] = (if cur = [] then [] else [rev cur])"
| "splitlines_from cur [c] = (if is_linebreak c then [rev cur] else [rev (c # cur)])"
| "splitlines_from cur (c # d # cs) =
     (if c = CHR 0x0D \<and> d = CHR 0x0A then rev cur # splitlines_from [] cs
      else if is_linebreak c then rev cur # splitlines_from [] (d # cs)
      else splitlines_from (c # cur) (d # cs))"

definition splitlines :: "string \<Rightarrow> string list" where
  "splitlines s = splitlines_from [] s"

definition is_comma_or_space :: "char \<Rightarrow> bool" where
  "is_comma_or_space c = (c = CHR '','' \<or> c = CHR '' '')"

definition is_space_or_bar :: "char \<Rightarrow> bool" where
  "is_space_or_bar c = (c = CHR '' '' \<or> c = CHR ''|'')"

definition is_bracket :: "char \<Rightarrow> bool" where
  "is_bracket c = (c = CHR ''['' \<or> c = CHR '']'')"

definition parse_segment_layout :: "string \<Rightarrow> string list option" where
  "parse_segment_layout segment_layout =
     (if segment_layout \<noteq> []
      then Some (re_split_runs is_comma_or_space False []
                   (strip_chars (\<lambda>c. c = CHR '' '') segment_layout))
      else None)"

definition parts_of_side_layout :: "string \<Rightarrow> string list" where
  "parts_of_side_layout side_layout0 =
     (let side_layout = strip_chars is_space_or_bar side_layout0;
          parts =
            (if CHR ''/'' \<in> set side_layout
             then Some (split_max (\<lambda>c. c = CHR ''/'') 2 side_layout)
             else if CHR ''['' \<in> set side_layout \<and> CHR '']'' \<in> set side_layout
             then Some (split_max is_bracket 2 side_layout)
             else None)
      in (case parts of
            Some ps \<Rightarrow> if ps \<noteq> [] then map (strip_chars py_isspace) ps
                        else [side_layout, [], []]
          | None \<Rightarrow> [side_layout, [], []]))"

text \<open>The scale keys of one side, per rule part; \<open>None\<close> where the source has \<open>None\<close>.\<close>

record side_keys =
  stator_top :: "string list option"
  slide :: "string list option"
  stator_bottom :: "string list option"

text \<open>
  \<open>parse_side_layout\<close>. With one major part the source binds the whole list of parts to
  \<open>slide_scales\<close>; that list holds one optional key list, and the model takes it as the
  slide's keys.
\<close>

definition parse_side_layout :: "string option \<Rightarrow> side_keys" where
  "parse_side_layout layout =
     (case layout of
        None \<Rightarrow> \<lparr>stator_top = None, slide = None, stator_bottom = None\<rparr>
      | Some l \<Rightarrow>
          if l = [] then \<lparr>stator_top = None, slide = None, stator_bottom = None\<rparr>
          else
            (case map parse_segment_layout
                    (parts_of_side_layout (strip_chars is_space_or_bar l)) of
               [s] \<Rightarrow> \<lparr>stator_top = None, slide = s, stator_bottom = None\<rparr>
             | [t, s, b] \<Rightarrow> \<lparr>stator_top = t, slide = s, stator_bottom = b\<rparr>
             | _ \<Rightarrow> \<lparr>stator_top = None, slide = None, stator_bottom = None\<rparr>))"

definition keys_at :: "side_keys \<Rightarrow> RulePart \<Rightarrow> string list option" where
  "keys_at sk part =
     (case part of STATOR_TOP \<Rightarrow> stator_top sk | SLIDE \<Rightarrow> slide sk
      | STATOR_BOTTOM \<Rightarrow> stator_bottom sk)"

section \<open>Layout: construction and alignment\<close>

text \<open>
  A name of a layout is looked up in the scale namespace first and in \<open>Rulers\<close>
  second, as \<open>getattr(scale_ns, name, None) or getattr(Rulers, name, None)\<close> does: the
  attribute of the scale namespace when it is there and true, the attribute of
  \<open>Rulers\<close> or \<open>None\<close> when not. \<open>hasattr\<close> holds for every attribute, a scale or not.
  Only a scale and a ruler have a \<open>key\<close>: reading it from another value or from
  \<open>None\<close> raises.
\<close>

datatype item = ScaleItem Scale | RulerItem Ruler

definition item_key :: "item \<Rightarrow> string" where
  "item_key x = (case x of ScaleItem sc \<Rightarrow> key sc | RulerItem r \<Rightarrow> ruler_key r)"

definition attr_truthy :: "pyattr \<Rightarrow> bool" where
  "attr_truthy a = (case a of OtherAttr b \<Rightarrow> b | _ \<Rightarrow> True)"

definition getattr_or :: "namespace \<Rightarrow> (string \<rightharpoonup> bool) \<Rightarrow> string \<Rightarrow> pyattr option" where
  "getattr_or ns class_attrs name =
     (case ns name of
        Some a \<Rightarrow> if attr_truthy a then Some a else Rulers class_attrs name
      | None \<Rightarrow> Rulers class_attrs name)"

definition item_of :: "pyattr option \<Rightarrow> item option" where
  "item_of v =
     (case v of
        Some (ScaleAttr sc) \<Rightarrow> Some (ScaleItem sc)
      | Some (RulerAttr r) \<Rightarrow> Some (RulerItem r)
      | _ \<Rightarrow> None)"

definition hasattr_name :: "namespace \<Rightarrow> (string \<rightharpoonup> bool) \<Rightarrow> string \<Rightarrow> bool" where
  "hasattr_name ns class_attrs name = (name \<in> dom ns \<or> name \<in> dom (Rulers class_attrs))"

type_synonym aligns = "string \<rightharpoonup> Align"

record Layout =
  sc_keys :: "Side \<Rightarrow> side_keys"
  scale_ns :: namespace
  scale_aligns :: "Side \<Rightarrow> aligns"

definition sc_keys_at :: "(Side \<Rightarrow> side_keys) \<Rightarrow> Side \<Rightarrow> RulePart \<Rightarrow> string list option" where
  "sc_keys_at ks side part = keys_at (ks side) part"

definition or_empty :: "'a list option \<Rightarrow> 'a list" where
  "or_empty l = (case l of None \<Rightarrow> [] | Some xs \<Rightarrow> xs)"

text \<open>\<open>sc_keys_in_order\<close>: front before rear, and in each side the parts from the top.\<close>

definition sc_keys_in_order :: "(Side \<Rightarrow> side_keys) \<Rightarrow> string list" where
  "sc_keys_in_order ks =
     concat (map (\<lambda>side. concat (map (\<lambda>part. or_empty (sc_keys_at ks side part))
                                     [STATOR_TOP, SLIDE, STATOR_BOTTOM]))
                 [FRONT, REAR])"

fun check_names :: "namespace \<Rightarrow> (string \<rightharpoonup> bool) \<Rightarrow> string list \<Rightarrow> error + unit" where
  "check_names ns class_attrs [] = Inr ()"
| "check_names ns class_attrs (scale_name # rest) =
     (if \<not> hasattr_name ns class_attrs scale_name
      then Inl (ValueError (''Unrecognized front scale name: '' @ scale_name))
      else check_names ns class_attrs rest)"

definition check_scales ::
  "(Side \<Rightarrow> side_keys) \<Rightarrow> namespace \<Rightarrow> (string \<rightharpoonup> bool) \<Rightarrow> error + unit" where
  "check_scales ks ns class_attrs = check_names ns class_attrs (sc_keys_in_order ks)"

definition scales_at ::
  "(Side \<Rightarrow> side_keys) \<Rightarrow> namespace \<Rightarrow> (string \<rightharpoonup> bool) \<Rightarrow> Side \<Rightarrow> RulePart
     \<Rightarrow> pyattr option list" where
  "scales_at ks ns class_attrs side part =
     map (getattr_or ns class_attrs) (or_empty (sc_keys_at ks side part))"

text \<open>The truth value of \<open>sc.opp_key\<close>: \<open>None\<close> and the empty string are false.\<close>

definition opp_truthy :: "Scale \<Rightarrow> bool" where
  "opp_truthy sc = (case opp_key sc of None \<Rightarrow> False | Some k \<Rightarrow> k \<noteq> [])"

text \<open>
  One round of the inner loop of \<open>infer_aligns\<close>, on the side's alignments and the set
  of keys seen so far on the side.
\<close>

definition infer_step ::
  "RulePart \<Rightarrow> int \<Rightarrow> aligns \<times> string set \<Rightarrow> nat \<times> item \<Rightarrow> aligns \<times> string set" where
  "infer_step part last_i st ix =
     (case st of (side_overrides, side_seen) \<Rightarrow>
      (case ix of (i, x) \<Rightarrow>
        (let k = item_key x;
             side_overrides' =
               (if k \<notin> dom side_overrides then
                  (case x of
                     RulerItem r \<Rightarrow>
                       side_overrides(k \<mapsto> (if part = STATOR_TOP then UPPER else LOWER))
                   | ScaleItem sc \<Rightarrow>
                       if i = 0 \<and> part = SLIDE then side_overrides(k \<mapsto> UPPER)
                       else if int i = last_i \<and> part \<noteq> STATOR_BOTTOM
                         then side_overrides(k \<mapsto> LOWER)
                       else if opp_truthy sc
                         then side_overrides(k \<mapsto>
                                (if the (opp_key sc) \<in> side_seen then UPPER else LOWER))
                       else side_overrides)
                else side_overrides)
         in (side_overrides', insert k side_seen))))"

definition infer_loop ::
  "RulePart \<Rightarrow> int \<Rightarrow> aligns \<times> string set \<Rightarrow> (nat \<times> item) list \<Rightarrow> aligns \<times> string set" where
  "infer_loop part last_i st ixs = foldl (infer_step part last_i) st ixs"

definition infer_part ::
  "RulePart \<Rightarrow> item list \<Rightarrow> aligns \<times> string set \<Rightarrow> aligns \<times> string set" where
  "infer_part part part_scales st =
     infer_loop part (int (length part_scales) - 1) st (enumerate 0 part_scales)"

text \<open>The body of \<open>infer_aligns\<close> for one side, on the resolved scales of its three parts.\<close>

definition infer_side :: "aligns \<Rightarrow> item list \<Rightarrow> item list \<Rightarrow> item list \<Rightarrow> aligns" where
  "infer_side side_overrides top_scs mid_scs bot_scs =
     fst (infer_part STATOR_BOTTOM bot_scs
           (infer_part SLIDE mid_scs
             (infer_part STATOR_TOP top_scs (side_overrides, {}))))"

text \<open>
  \<open>infer_aligns\<close> on a side of a layout: reading \<open>sc.key\<close> of what is neither a scale
  nor a ruler raises \<open>AttributeError\<close>.
\<close>

definition infer_aligns_side ::
  "(Side \<Rightarrow> side_keys) \<Rightarrow> namespace \<Rightarrow> (string \<rightharpoonup> bool) \<Rightarrow> Side \<Rightarrow> aligns
     \<Rightarrow> error + aligns" where
  "infer_aligns_side ks ns class_attrs side side_overrides =
     (case (those (map item_of (scales_at ks ns class_attrs side STATOR_TOP)),
            those (map item_of (scales_at ks ns class_attrs side SLIDE)),
            those (map item_of (scales_at ks ns class_attrs side STATOR_BOTTOM))) of
        (Some top_scs, Some mid_scs, Some bot_scs) \<Rightarrow>
          Inr (infer_side side_overrides top_scs mid_scs bot_scs)
      | _ \<Rightarrow> Inl AttributeError)"

definition scale_al :: "aligns \<Rightarrow> Scale \<Rightarrow> RulePart \<Rightarrow> Align" where
  "scale_al side_aligns sc part =
     (let default_al = (if part = STATOR_BOTTOM then UPPER else LOWER)
      in (case side_aligns (key sc) of None \<Rightarrow> default_al | Some al \<Rightarrow> al))"

text \<open>
  The first step of the constructor: without a rear text, a front text that has a line
  feed is split into lines and unpacked into exactly two.
\<close>

definition split_front_rear :: "string \<Rightarrow> string option \<Rightarrow> error + (string \<times> string option)" where
  "split_front_rear front_str rear_str =
     (if (rear_str = None \<or> rear_str = Some []) \<and> CHR 0x0A \<in> set front_str
      then (case splitlines front_str of
              [f, r] \<Rightarrow> Inr (f, Some r)
            | [] \<Rightarrow> Inl (ValueError ''not enough values to unpack (expected 2, got 0)'')
            | [f] \<Rightarrow> Inl (ValueError ''not enough values to unpack (expected 2, got 1)'')
            | _ \<Rightarrow> Inl (ValueError ''too many values to unpack (expected 2)''))
      else Inr (front_str, rear_str))"

definition parse_sides :: "string \<Rightarrow> string option \<Rightarrow> Side \<Rightarrow> side_keys" where
  "parse_sides front_str rear_str side =
     (case side of
        FRONT \<Rightarrow> parse_side_layout (Some front_str)
      | REAR \<Rightarrow> parse_side_layout rear_str)"

definition get_overrides :: "(Side \<rightharpoonup> aligns) option \<Rightarrow> Side \<Rightarrow> aligns" where
  "get_overrides align_overrides side =
     (case align_overrides of
        None \<Rightarrow> Map.empty
      | Some ao \<Rightarrow> (case ao side of None \<Rightarrow> Map.empty | Some m \<Rightarrow> m))"

definition Layout_init ::
  "string \<Rightarrow> string option \<Rightarrow> namespace \<Rightarrow> (string \<rightharpoonup> bool) \<Rightarrow> (Side \<rightharpoonup> aligns) option
     \<Rightarrow> error + Layout" where
  "Layout_init front_str0 rear_str0 ns class_attrs align_overrides =
     (case split_front_rear front_str0 rear_str0 of
        Inl e \<Rightarrow> Inl e
      | Inr (front_str, rear_str) \<Rightarrow>
          (let ks = parse_sides front_str rear_str
           in (case check_scales ks ns class_attrs of
                 Inl e \<Rightarrow> Inl e
               | Inr _ \<Rightarrow>
                  (case infer_aligns_side ks ns class_attrs FRONT
                          (get_overrides align_overrides FRONT) of
                     Inl e \<Rightarrow> Inl e
                   | Inr fa \<Rightarrow>
                      (case infer_aligns_side ks ns class_attrs REAR
                              (get_overrides align_overrides REAR) of
                         Inl e \<Rightarrow> Inl e
                       | Inr ra \<Rightarrow>
                          Inr \<lparr>sc_keys = ks, scale_ns = ns,
                               scale_aligns = (\<lambda>side. case side of FRONT \<Rightarrow> fa | REAR \<Rightarrow> ra)\<rparr>)))))"

section \<open>Numerals\<close>

text \<open>
  A number handed to the drawing code is a Python \<open>int\<close> or a \<open>float\<close>. The decimal
  text of an \<open>int\<close> is computed; the text \<open>str\<close> gives a \<open>float\<close> is a parameter
  \<open>str_float\<close> of the functions that read it.
\<close>

datatype pynum = PyInt int | PyFloat real

definition digit_char :: "nat \<Rightarrow> char" where
  "digit_char d = char_of (48 + d)"

fun nat_digits :: "nat \<Rightarrow> string" where
  "nat_digits n = (if n < 10 then [digit_char n] else nat_digits (n div 10) @ [digit_char (n mod 10)])"

definition str_int :: "int \<Rightarrow> string" where
  "str_int i = (if i < 0 then CHR ''-'' # nat_digits (nat (- i)) else nat_digits (nat i))"

text \<open>\<open>int(c)\<close> for a one-character string.\<close>

definition int_of_char :: "char \<Rightarrow> error + int" where
  "int_of_char c =
     (if c \<in> set ''0123456789'' then Inr (of_char c - 48)
      else Inl (ValueError (''invalid literal for int() with base 10: '' @ [c])))"

text \<open>\<open>int(x)\<close> for a float: the fraction is dropped, towards zero.\<close>

definition py_int :: "real \<Rightarrow> int" where
  "py_int r = (if 0 \<le> r then \<lfloor>r\<rfloor> else \<lceil>r\<rceil>)"

definition first_digit_of :: "(real \<Rightarrow> string) \<Rightarrow> real \<Rightarrow> error + int" where
  "first_digit_of str_float x =
     (case str_float x of [] \<Rightarrow> Inl IndexError | c # _ \<Rightarrow> int_of_char c)"

definition last_digit_of :: "(real \<Rightarrow> string) \<Rightarrow> real \<Rightarrow> error + int" where
  "last_digit_of str_float x =
     (let s = (if of_int (py_int x) = x then str_int (py_int x) else str_float x)
      in if s = [] then Inl IndexError else int_of_char (last s))"

text \<open>\<open>num % 10\<close> on floats, and \<open>math.log10(num).is_integer()\<close>.\<close>

definition fmod10 :: "real \<Rightarrow> real" where
  "fmod10 num = num - 10 * of_int \<lfloor>num / 10\<rfloor>"

definition log10_is_integer :: "real \<Rightarrow> bool" where
  "log10_is_integer num = (log 10 num \<in> \<int>)"

definition sig_digit_of :: "(real \<Rightarrow> string) \<Rightarrow> real \<Rightarrow> error + pynum" where
  "sig_digit_of str_float num =
     (if \<not> (0 < num \<and> log10_is_integer num) then
        (if fmod10 num = 0 then map_res PyInt (first_digit_of str_float num)
         else if num < 1 then map_res PyInt (last_digit_of str_float num)
         else Inr (PyFloat num))
      else map_res PyInt (first_digit_of str_float num))"

section \<open>Graduation\<close>

datatype FontSize = TITLE | SUBTITLE | SC_LBL | N_XL | N_LG | N_MD | N_SM | N_XS

datatype HMod = DOT | XS | SM | MED | LG | LG2 | XL

text \<open>
  A font is known by its size and the height ratio it was asked for. Of the geometry
  the graduation reads the scale length, the tick thickness and the height ratio of a
  scale; of the style, the pixel width of a text in a font. Tick heights are kept as
  the height modifier they are computed from.
\<close>

record Font =
  font_size :: FontSize
  font_h_ratio :: "real option"

record Geometry =
  SL :: int
  STT :: int
  scale_h_ratio :: "Scale \<Rightarrow> real option"

record Style =
  sym_width :: "string \<Rightarrow> Font \<Rightarrow> int"

definition min_tick_offset :: "Geometry \<Rightarrow> int" where
  "min_tick_offset g = STT g * 3"

definition font_for :: "FontSize \<Rightarrow> real option \<Rightarrow> Font" where
  "font_for sz h_ratio = \<lparr>font_size = sz, font_h_ratio = h_ratio\<rparr>"

definition truediv :: "real \<Rightarrow> real \<Rightarrow> error + real" where
  "truediv a b = (if b = 0 then Inl ZeroDivisionError else Inr (a / b))"

text \<open>\<open>a // b\<close> for a float and an int: the floor of the quotient.\<close>

definition float_floordiv :: "real \<Rightarrow> int \<Rightarrow> error + int" where
  "float_floordiv a b = (if b = 0 then Inl ZeroDivisionError else Inr \<lfloor>a / of_int b\<rfloor>)"

definition py_mod :: "int \<Rightarrow> int \<Rightarrow> error + int" where
  "py_mod a b = (if b = 0 then Inl ZeroDivisionError else Inr (a mod b))"

text \<open>\<open>range(a, b, s)\<close> as a list.\<close>

definition py_range :: "int \<Rightarrow> int \<Rightarrow> int \<Rightarrow> error + int list" where
  "py_range a b s =
     (if s = 0 then Inl (ValueError ''range() arg 3 must not be zero'')
      else if 0 < s then Inr (map (\<lambda>j. a + int j * s) [0..<nat ((b - a + s - 1) div s)])
      else Inr (map (\<lambda>j. a + int j * s) [0..<nat ((a - b - s - 1) div (- s))]))"

text \<open>
  The endpoints of \<open>pat_auto\<close>: an endpoint that is \<open>None\<close> or zero is false to
  \<open>not\<close> and is taken from the scale; a reversed pair is swapped.
\<close>

definition endpoint_or :: "real option \<Rightarrow> error + real \<Rightarrow> error + real" where
  "endpoint_or x dflt = (case x of None \<Rightarrow> dflt | Some v \<Rightarrow> if v = 0 then dflt else Inr v)"

definition pat_auto_range :: "Scale \<Rightarrow> real option \<Rightarrow> real option \<Rightarrow> error + (real \<times> real)" where
  "pat_auto_range sc x_start x_end =
     bind_res (endpoint_or x_start (value_at_start sc)) (\<lambda>xs.
     bind_res (endpoint_or x_end (value_at_end sc)) (\<lambda>xe.
       Inr (if xe < xs then (xe, xs) else (xs, xe))))"

text \<open>
  The scan of the catalog: the first key, from the largest, that is at most
  \<open>step_num\<close> and whose gap reaches the least tick offset; the entry of key 1 when
  there is none. \<open>gap i\<close> is \<open>min_offset_for_delta\<close> for the step of key \<open>i\<close>.
\<close>

fun next_sub_div :: "(int \<Rightarrow> error + real) \<Rightarrow> int \<Rightarrow> real \<Rightarrow> int list \<Rightarrow> error + TickFactors" where
  "next_sub_div gap step_num mto [] = TF_BY_MIN_get 1"
| "next_sub_div gap step_num mto (i # rest) =
     (if i \<le> step_num
      then bind_res (gap i) (\<lambda>g.
             if mto \<le> g then TF_BY_MIN_get i else next_sub_div gap step_num mto rest)
      else next_sub_div gap step_num mto rest)"

definition tick_gap :: "Scale \<Rightarrow> real \<Rightarrow> real \<Rightarrow> int \<Rightarrow> int \<Rightarrow> int \<Rightarrow> int \<Rightarrow> error + real" where
  "tick_gap sc x_start x_end step_num sf scale_w i =
     min_offset_for_delta sc x_start x_end
       (of_int step_num / of_int i / of_int sf) (of_int scale_w)"

text \<open>The precision of the indices and the outer step, as \<open>(sf, step_num)\<close>.\<close>

definition pat_auto_scale :: "Scale \<Rightarrow> real \<Rightarrow> real \<Rightarrow> error + (int \<times> int)" where
  "pat_auto_scale sc x_start x_end =
     bind_res (truediv (x_end - x_start) (max x_start x_end)) (\<lambda>q.
     bind_res (gen_base \<bar>q\<bar>) (\<lambda>l.
       (let log_diff = \<bar>l\<bar>;
            num_digits = \<lceil>log_diff\<rceil> + 3
        in bind_res (offset_between sc x_start x_end 1) (\<lambda>frac_w.
           bind_res (gen_base (x_end - x_start)) (\<lambda>ls.
             Inr ((10::int) ^ nat num_digits,
                  (10::int) ^ nat (max (py_int (ls - 0.5 * frac_w) + num_digits) 0)))))))"

definition pat_auto_sub_div :: "Geometry \<Rightarrow> Scale \<Rightarrow> real \<Rightarrow> real \<Rightarrow> int \<Rightarrow> int \<Rightarrow> error + TickFactors" where
  "pat_auto_sub_div g sc x_start x_end sf step_num =
     next_sub_div (tick_gap sc x_start x_end step_num sf (SL g))
       step_num (of_int (min_tick_offset g)) TF_MIN"

text \<open>
  The fonts of the three numbered tick levels. \<open>sub_num\<close>: there are ticks below the
  third level, and more than 8 characters fit between two numerals of the first.
\<close>

definition sub_num_of :: "int \<Rightarrow> int \<Rightarrow> int \<Rightarrow> int \<Rightarrow> bool" where
  "sub_num_of step_num step3 step4 max_num_chars =
     ((step4 < step3 \<and> step3 < step_num) \<and> 8 < max_num_chars)"

definition steps_font_of ::
  "Font \<Rightarrow> real option \<Rightarrow> int \<Rightarrow> int \<Rightarrow> int \<Rightarrow> int \<Rightarrow> int
     \<Rightarrow> Font option \<times> Font option \<times> Font option" where
  "steps_font_of num_font scale_hf step_num step2 step3 step4 max_num_chars =
     (let sub_num = sub_num_of step_num step3 step4 max_num_chars
      in (Some num_font,
          (if sub_num \<and> step2 = step_num div 10 \<or> step2 = step_num div 2
           then Some (font_for N_SM scale_hf) else None),
          (if sub_num \<and> step3 = step_num div 10
           then Some (font_for N_XS scale_hf) else None)))"

record pat_args =
  i_start :: int
  i_end :: int
  i_sf :: int
  steps_i :: "int \<times> int \<times> int \<times> int"
  steps_th :: "HMod \<times> HMod \<times> HMod \<times> HMod"
  steps_font :: "Font option \<times> Font option \<times> Font option"
  digit1 :: "bool \<times> bool \<times> bool"

text \<open>\<open>pat_auto\<close> up to its call of \<open>pat\<close>: the arguments of that call.\<close>

definition pat_auto_args ::
  "Geometry \<Rightarrow> Style \<Rightarrow> Scale \<Rightarrow> real option \<Rightarrow> real option \<Rightarrow> bool \<Rightarrow> error + pat_args" where
  "pat_auto_args g s sc x_start0 x_end0 include_last =
     bind_res (pat_auto_range sc x_start0 x_end0) (\<lambda>(x_start, x_end).
     bind_res (pat_auto_scale sc x_start x_end) (\<lambda>(sf, step_num).
     bind_res (pat_auto_sub_div g sc x_start x_end sf step_num) (\<lambda>sub_div4.
     bind_res (t_s step_num sub_div4) (\<lambda>(_, step2, step3, step4).
       (let i_start0 = py_int (x_start * of_int sf)
        in bind_res (py_mod i_start0 step4) (\<lambda>i_offset.
          (let i_start1 = (if 0 < i_offset then i_start0 - i_offset + step4 else i_start0);
               scale_hf = scale_h_ratio g sc;
               num_font0 = font_for N_LG scale_hf
           in bind_res (min_offset_for_delta sc x_start x_end
                          (of_int step_num / of_int sf) (of_int (SL g))) (\<lambda>numeral_tick_offset.
              bind_res (float_floordiv numeral_tick_offset (sym_width s ''_'' num_font0))
                (\<lambda>max_num_chars.
                (let num_font = (if max_num_chars < 2 then font_for N_SM scale_hf
                                 else num_font0)
                 in Inr \<lparr>i_start = i_start1,
                         i_end = py_int (x_end * of_int sf + (if include_last then 1 else 0)),
                         i_sf = sf,
                         steps_i = (step_num, step2, step3, step4),
                         steps_th =
                           (MED,
                            (if step3 = step_num div 2 \<and> step4 < step3 then XL else XS),
                            (if step4 < step3 then XS else DOT),
                            DOT),
                         steps_font =
                           steps_font_of num_font scale_hf step_num step2 step3 step4
                             max_num_chars,
                         digit1 = (max_num_chars < 3, max_num_chars < 16,
                                   max_num_chars < 128)\<rparr>))))))))))"

text \<open>
  What \<open>pat\<close> draws at one index: the tick with its pixel position and height, and
  before it the numeral of the first level the index is a multiple of, when that level
  has a font.
\<close>

record tick =
  tick_i :: int
  tick_x :: int
  tick_h :: HMod
  tick_numeral :: "(pynum \<times> Font) option"

definition numeral_of :: "(real \<Rightarrow> string) \<Rightarrow> bool \<Rightarrow> real \<Rightarrow> error + pynum" where
  "numeral_of str_float d n = (if d then sig_digit_of str_float n else Inr (PyFloat n))"

definition level_numeral ::
  "(real \<Rightarrow> string) \<Rightarrow> Font option \<Rightarrow> bool \<Rightarrow> real \<Rightarrow> error + (pynum \<times> Font) option" where
  "level_numeral str_float font d n =
     (case font of
        None \<Rightarrow> Inr None
      | Some f \<Rightarrow> map_res (\<lambda>v. Some (v, f)) (numeral_of str_float d n))"

definition pat_tick ::
  "(real \<Rightarrow> string) \<Rightarrow> Scale \<Rightarrow> int \<Rightarrow> pat_args \<Rightarrow> int \<Rightarrow> error + tick" where
  "pat_tick str_float sc scale_w a i =
     (case steps_i a of (step1, step2, step3, step4) \<Rightarrow>
      case steps_th a of (th1, th2, th3, th4) \<Rightarrow>
      case steps_font a of (font1, font2, font3) \<Rightarrow>
      case digit1 a of (d1, d2, d3) \<Rightarrow>
        bind_res (truediv (of_int i) (of_int (i_sf a))) (\<lambda>n.
        bind_res (scale_to sc n scale_w) (\<lambda>x.
        bind_res (py_mod i step1) (\<lambda>m1.
          if m1 = 0
          then map_res (\<lambda>nm. \<lparr>tick_i = i, tick_x = x, tick_h = th1, tick_numeral = nm\<rparr>)
                 (level_numeral str_float font1 d1 n)
          else bind_res (py_mod i step2) (\<lambda>m2.
            if m2 = 0
            then map_res (\<lambda>nm. \<lparr>tick_i = i, tick_x = x, tick_h = th2, tick_numeral = nm\<rparr>)
                   (level_numeral str_float font2 d2 n)
            else bind_res (py_mod i step3) (\<lambda>m3.
              if m3 = 0
              then map_res (\<lambda>nm. \<lparr>tick_i = i, tick_x = x, tick_h = th3, tick_numeral = nm\<rparr>)
                     (level_numeral str_float font3 d3 n)
              else Inr \<lparr>tick_i = i, tick_x = x, tick_h = th4, tick_numeral = None\<rparr>))))))"

fun pat_loop ::
  "(real \<Rightarrow> string) \<Rightarrow> Scale \<Rightarrow> int \<Rightarrow> pat_args \<Rightarrow> int list \<Rightarrow> error + tick list" where
  "pat_loop str_float sc scale_w a [] = Inr []"
| "pat_loop str_float sc scale_w a (i # rest) =
     bind_res (pat_tick str_float sc scale_w a i) (\<lambda>t.
       map_res (\<lambda>ts. t # ts) (pat_loop str_float sc scale_w a rest))"

definition pat :: "(real \<Rightarrow> string) \<Rightarrow> Scale \<Rightarrow> int \<Rightarrow> pat_args \<Rightarrow> error + tick list" where
  "pat str_float sc scale_w a =
     (case steps_i a of (step1, step2, step3, step4) \<Rightarrow>
        bind_res (py_range (i_start a) (i_end a) step4)
          (pat_loop str_float sc scale_w a))"

definition pat_auto ::
  "(real \<Rightarrow> string) \<Rightarrow> Geometry \<Rightarrow> Style \<Rightarrow> Scale \<Rightarrow> real option \<Rightarrow> real option \<Rightarrow> bool
     \<Rightarrow> error + tick list" where
  "pat_auto str_float g s sc x_start x_end include_last =
     bind_res (pat_auto_args g s sc x_start x_end include_last)
       (pat str_float sc (SL g))"

section \<open>Vocabulary of the alignment property\<close>

text \<open>
  The scales of a part of a side, the scales placed on the side before position \<open>i\<close>
  of a part, and the number of scales of a list that have a given key.
\<close>

definition part_scales :: "item list \<Rightarrow> item list \<Rightarrow> item list \<Rightarrow> RulePart \<Rightarrow> item list" where
  "part_scales top_scs mid_scs bot_scs part =
     (case part of STATOR_TOP \<Rightarrow> top_scs | SLIDE \<Rightarrow> mid_scs | STATOR_BOTTOM \<Rightarrow> bot_scs)"

definition placed_before ::
  "item list \<Rightarrow> item list \<Rightarrow> item list \<Rightarrow> RulePart \<Rightarrow> nat \<Rightarrow> item list" where
  "placed_before top_scs mid_scs bot_scs part i =
     (case part of
        STATOR_TOP \<Rightarrow> take i top_scs
      | SLIDE \<Rightarrow> top_scs @ take i mid_scs
      | STATOR_BOTTOM \<Rightarrow> top_scs @ mid_scs @ take i bot_scs)"

definition key_count :: "string \<Rightarrow> item list \<Rightarrow> nat" where
  "key_count k xs = length (filter (\<lambda>x. item_key x = k) xs)"

text \<open>The alignment a scale gets when its turn comes.\<close>

definition inferred :: "RulePart \<Rightarrow> bool \<Rightarrow> bool \<Rightarrow> Scale \<Rightarrow> string set \<Rightarrow> Align option" where
  "inferred part is_first is_last sc seen =
     (if is_first \<and> part = SLIDE then Some UPPER
      else if is_last \<and> part \<noteq> STATOR_BOTTOM then Some LOWER
      else if opp_truthy sc then Some (if the (opp_key sc) \<in> seen then UPPER else LOWER)
      else None)"

section \<open>Inputs of the examples\<close>

text \<open>
  A geometry with a given scale length and tick thickness and no height override, and
  a style in which every text is \<open>w\<close> pixels wide.
\<close>

definition demo_geometry :: "int \<Rightarrow> int \<Rightarrow> Geometry" where
  "demo_geometry scale_len tick_w = \<lparr>SL = scale_len, STT = tick_w, scale_h_ratio = (\<lambda>sc. None)\<rparr>"

definition fixed_width_style :: "int \<Rightarrow> Style" where
  "fixed_width_style w = \<lparr>sym_width = (\<lambda>txt font. w)\<rparr>"

section \<open>Properties of the catalog and of the subdivision\<close>

lemma TF_MIN_eq: "TF_MIN = [500, 250, 100, 50, 25, 20, 10, 5, 2, 1]"
  by (simp add: TF_MIN_def TF_BY_MIN_def)

lemma TF_BY_MIN_get_simps:
  "TF_BY_MIN_get 500 = Inr (10, 10, 5)"
  "TF_BY_MIN_get 250 = Inr (10, 5, 5)"
  "TF_BY_MIN_get 100 = Inr (10, 2, 5)"
  "TF_BY_MIN_get 50 = Inr (2, 5, 5)"
  "TF_BY_MIN_get 25 = Inr (1, 5, 5)"
  "TF_BY_MIN_get 20 = Inr (2, 5, 2)"
  "TF_BY_MIN_get 10 = Inr (2, 5, 1)"
  "TF_BY_MIN_get 5 = Inr (1, 5, 1)"
  "TF_BY_MIN_get 2 = Inr (1, 2, 1)"
  "TF_BY_MIN_get 1 = Inr (1, 1, 1)"
  by (simp_all add: TF_BY_MIN_get_def TF_BY_MIN_def)

lemma TF_BY_MIN_factors_positive:
  "(k, f1, f2, f3) \<in> set TF_BY_MIN \<Longrightarrow> 0 < f1 \<and> 0 < f2 \<and> 0 < f3"
  by (auto simp add: TF_BY_MIN_def)

lemma div_step_le:
  fixes s f :: int
  assumes "0 \<le> s" and "0 < f"
  shows "0 \<le> s div f \<and> s div f \<le> s"
proof
  show "0 \<le> s div f"
    using assms by (simp add: pos_imp_zdiv_nonneg_iff)
  have "s div f \<le> s div 1"
    using assms by (intro zdiv_mono2) auto
  then show "s div f \<le> s" by simp
qed

text \<open>
  C3. For a non-negative outer step and a triple of positive factors, \<open>t_s\<close> returns
  (it does not raise), its first component is the outer step, and the four steps are
  ordered: step4 \<le> step3 \<le> step2 \<le> step1.
\<close>

theorem t_s_steps_ordered:
  assumes "0 \<le> s1" and "0 < f1" and "0 < f2" and "0 < f3"
  shows "\<exists>s2 s3 s4. t_s s1 (f1, f2, f3) = Inr (s1, s2, s3, s4)
           \<and> s4 \<le> s3 \<and> s3 \<le> s2 \<and> s2 \<le> s1"
proof -
  define s2 where "s2 = (if f1 = 1 then s1 else s1 div f1)"
  define s3 where "s3 = (if f2 = 1 then s2 else s2 div f2)"
  define s4 where "s4 = (if f3 = 1 then s3 else s3 div f3)"
  have a2: "0 \<le> s2 \<and> s2 \<le> s1"
    using div_step_le [OF assms(1) assms(2)] assms(1) by (simp add: s2_def)
  then have a3: "0 \<le> s3 \<and> s3 \<le> s2"
    using div_step_le [of s2 f2] assms(3) by (simp add: s3_def)
  then have a4: "0 \<le> s4 \<and> s4 \<le> s3"
    using div_step_le [of s3 f3] assms(4) by (simp add: s4_def)
  have "t_s s1 (f1, f2, f3) = Inr (s1, s2, s3, s4)"
    using assms by (simp add: t_s_def floordiv_def s2_def s3_def s4_def)
  with a2 a3 a4 show ?thesis by blast
qed

theorem t_s_steps_ordered_witness:
  "t_s 100 (2, 5, 5) = Inr (100, 50, 10, 2)
   \<and> (\<exists>s2 s3 s4. t_s 100 (2, 5, 5) = Inr (100, s2, s3, s4)
           \<and> s4 \<le> s3 \<and> s3 \<le> s2 \<and> s2 \<le> 100)"
  using t_s_steps_ordered [of 100 2 5 5] by (simp add: t_s_def floordiv_def)

section \<open>Alignment inference\<close>

lemma infer_step_seen:
  "snd (infer_step part last_i (ov, seen) (i, x)) = insert (item_key x) seen"
  by (simp add: infer_step_def Let_def)

lemma infer_step_other:
  "k \<noteq> item_key x \<Longrightarrow> fst (infer_step part last_i (ov, seen) (i, x)) k = ov k"
  by (cases x) (simp_all add: infer_step_def Let_def)

lemma infer_step_keeps:
  "ov k = Some a \<Longrightarrow> fst (infer_step part last_i (ov, seen) (i, x)) k = Some a"
  by (cases x) (auto simp add: infer_step_def Let_def)

lemma infer_loop_seen:
  "snd (infer_loop part last_i st ixs) = snd st \<union> item_key ` snd ` set ixs"
proof (induction ixs arbitrary: st)
  case Nil
  then show ?case by (simp add: infer_loop_def)
next
  case (Cons ix ixs)
  obtain ov seen where st: "st = (ov, seen)" by (cases st)
  obtain i x where ix: "ix = (i, x)" by (cases ix)
  have "infer_loop part last_i st (ix # ixs)
          = infer_loop part last_i (infer_step part last_i st ix) ixs"
    by (simp add: infer_loop_def)
  then show ?case
    using Cons.IH [of "infer_step part last_i st ix"]
    by (simp add: st ix infer_step_seen)
qed

lemma infer_loop_other:
  "k \<notin> item_key ` snd ` set ixs \<Longrightarrow> fst (infer_loop part last_i st ixs) k = fst st k"
proof (induction ixs arbitrary: st)
  case Nil
  then show ?case by (simp add: infer_loop_def)
next
  case (Cons ix ixs)
  obtain ov seen where st: "st = (ov, seen)" by (cases st)
  obtain i x where ix: "ix = (i, x)" by (cases ix)
  have step: "infer_loop part last_i st (ix # ixs)
          = infer_loop part last_i (infer_step part last_i st ix) ixs"
    by (simp add: infer_loop_def)
  from Cons.prems have k: "k \<noteq> item_key x" and rest: "k \<notin> item_key ` snd ` set ixs"
    by (auto simp add: ix)
  have "fst (infer_step part last_i st ix) k = fst st k"
    using infer_step_other [OF k] by (simp add: st ix)
  then show ?case
    using Cons.IH [OF rest, of "infer_step part last_i st ix"] by (simp add: step)
qed

lemma infer_loop_keeps:
  "fst st k = Some a \<Longrightarrow> fst (infer_loop part last_i st ixs) k = Some a"
proof (induction ixs arbitrary: st)
  case Nil
  then show ?case by (simp add: infer_loop_def)
next
  case (Cons ix ixs)
  obtain ov seen where st: "st = (ov, seen)" by (cases st)
  obtain i x where ix: "ix = (i, x)" by (cases ix)
  have step: "infer_loop part last_i st (ix # ixs)
          = infer_loop part last_i (infer_step part last_i st ix) ixs"
    by (simp add: infer_loop_def)
  have "fst (infer_step part last_i st ix) k = Some a"
    using Cons.prems by (simp add: st ix infer_step_keeps)
  then show ?case
    using Cons.IH by (simp add: step)
qed

lemma infer_loop_append:
  "infer_loop part last_i st (xs @ ys) = infer_loop part last_i (infer_loop part last_i st xs) ys"
  by (simp add: infer_loop_def)

lemma snd_set_enumerate: "snd ` set (enumerate n xs) = set xs"
  by (metis list.set_map map_snd_enumerate)

lemma infer_part_seen:
  "snd (infer_part part scs st) = snd st \<union> item_key ` set scs"
  by (simp add: infer_part_def infer_loop_seen snd_set_enumerate)

lemma infer_part_other:
  "k \<notin> item_key ` set scs \<Longrightarrow> fst (infer_part part scs st) k = fst st k"
  by (simp add: infer_part_def infer_loop_other snd_set_enumerate)

lemma infer_part_keeps:
  "fst st k = Some a \<Longrightarrow> fst (infer_part part scs st) k = Some a"
  by (simp add: infer_part_def infer_loop_keeps)

lemma infer_step_at:
  "ov (key sc) = None \<Longrightarrow>
     fst (infer_step part last_i (ov, seen) (i, ScaleItem sc)) (key sc)
       = inferred part (i = 0) (int i = last_i) sc seen"
  by (simp add: infer_step_def Let_def item_key_def inferred_def domIff)

lemma infer_part_at:
  assumes "fst st (key sc) = None"
    and "key sc \<notin> item_key ` set pre"
    and "key sc \<notin> item_key ` set post"
  shows "fst (infer_part part (pre @ ScaleItem sc # post) st) (key sc)
           = inferred part (pre = []) (post = []) sc (snd st \<union> item_key ` set pre)"
proof -
  define l where "l = int (length (pre @ ScaleItem sc # post)) - 1"
  define s1 where "s1 = infer_loop part l st (enumerate 0 pre)"
  define s2 where "s2 = infer_step part l s1 (length pre, ScaleItem sc)"
  have e: "enumerate 0 (pre @ ScaleItem sc # post)
             = enumerate 0 pre @ (length pre, ScaleItem sc) # enumerate (Suc (length pre)) post"
    by (simp add: enumerate_append_eq)
  have split: "infer_part part (pre @ ScaleItem sc # post) st
                 = infer_loop part l s2 (enumerate (Suc (length pre)) post)"
    unfolding infer_part_def e infer_loop_append l_def [symmetric] s1_def s2_def
    by (simp add: infer_loop_def)
  have none1: "fst s1 (key sc) = None"
    using assms(1,2) by (simp add: s1_def infer_loop_other snd_set_enumerate)
  have seen1: "snd s1 = snd st \<union> item_key ` set pre"
    by (simp add: s1_def infer_loop_seen snd_set_enumerate)
  have last: "(int (length pre) = l) = (post = [])" by (auto simp add: l_def)
  from infer_step_at [of "fst s1" sc part l "snd s1" "length pre"] none1
  have "fst (infer_step part l s1 (length pre, ScaleItem sc)) (key sc)
          = inferred part (length pre = 0) (int (length pre) = l) sc (snd s1)"
    by simp
  then have at: "fst s2 (key sc)
          = inferred part (pre = []) (post = []) sc (snd st \<union> item_key ` set pre)"
    by (simp add: s2_def seen1 last)
  show ?thesis
  proof (cases "fst s2 (key sc)")
    case None
    then show ?thesis
      using assms(3) at by (simp add: split infer_loop_other snd_set_enumerate)
  next
    case (Some a)
    then show ?thesis
      using at infer_loop_keeps [of s2 "key sc" a] by (simp add: split)
  qed
qed

lemma key_count_once:
  assumes "key_count k (xs @ x # ys) = 1" and "item_key x = k"
  shows "k \<notin> item_key ` set xs \<and> k \<notin> item_key ` set ys"
proof -
  have "length (filter (\<lambda>x. item_key x = k) xs) + length (filter (\<lambda>x. item_key x = k) ys) = 0"
    using assms by (simp add: key_count_def)
  then have "filter (\<lambda>x. item_key x = k) xs = [] \<and> filter (\<lambda>x. item_key x = k) ys = []"
    by simp
  then show ?thesis
    by (auto simp add: filter_empty_conv)
qed

text \<open>
  C4 (amended). On a side whose parts hold the scales \<open>top_scs\<close>, \<open>mid_scs\<close> and
  \<open>bot_scs\<close>, take the scale at position \<open>i\<close> of a part, with a key that has no
  override and that no other scale or ruler of the side has. After \<open>infer_aligns\<close>,
  \<open>scale_al\<close> gives it: upper if it is the first scale of the slide; else lower if it is
  the last scale of a part other than the lower stator; else, if it names an opposite
  partner, upper when that key was placed before it on the side and lower when not;
  else, with no partner, upper in the lower stator and lower in the other parts.
\<close>

theorem infer_side_alignment:
  assumes i: "i < length (part_scales top_scs mid_scs bot_scs part)"
    and at: "part_scales top_scs mid_scs bot_scs part ! i = ScaleItem sc"
    and free: "key sc \<notin> dom ov"
    and once: "key_count (key sc) (top_scs @ mid_scs @ bot_scs) = 1"
  shows "scale_al (infer_side ov top_scs mid_scs bot_scs) sc part =
           (if part = SLIDE \<and> i = 0 then UPPER
            else if part \<noteq> STATOR_BOTTOM
                    \<and> Suc i = length (part_scales top_scs mid_scs bot_scs part) then LOWER
            else if opp_truthy sc then
              (if the (opp_key sc)
                    \<in> item_key ` set (placed_before top_scs mid_scs bot_scs part i)
               then UPPER else LOWER)
            else if part = STATOR_BOTTOM then UPPER else LOWER)"
proof -
  define scs where "scs = part_scales top_scs mid_scs bot_scs part"
  define pre where "pre = take i scs"
  define post where "post = drop (Suc i) scs"
  define k where "k = key sc"
  have "i < length scs" and "scs ! i = ScaleItem sc"
    using i at by (simp_all add: scs_def)
  then have scs: "scs = pre @ ScaleItem sc # post"
    unfolding pre_def post_def by (metis id_take_nth_drop)
  have pre_empty: "(pre = []) = (i = 0)"
    using i by (auto simp add: pre_def scs_def)
  have post_empty: "(post = []) = (Suc i = length scs)"
    using i by (auto simp add: post_def scs_def)
  have ov_none: "ov k = None"
    using free by (auto simp add: k_def)
  have ik: "item_key (ScaleItem sc) = k"
    by (simp add: item_key_def k_def)
  let ?s0 = "(ov, {}::string set)"
  let ?s1 = "infer_part STATOR_TOP top_scs ?s0"
  let ?s2 = "infer_part SLIDE mid_scs ?s1"
  let ?s3 = "infer_part STATOR_BOTTOM bot_scs ?s2"
  have res: "infer_side ov top_scs mid_scs bot_scs = fst ?s3"
    by (simp add: infer_side_def)
  have final: "fst ?s3 k
      = inferred part (i = 0) (Suc i = length scs) sc
          (item_key ` set (placed_before top_scs mid_scs bot_scs part i))"
  proof (cases part)
    case STATOR_TOP
    then have t: "top_scs = pre @ ScaleItem sc # post"
      using scs by (simp add: scs_def part_scales_def)
    have "key_count k ((pre @ ScaleItem sc # post) @ mid_scs @ bot_scs) = 1"
      using once by (simp add: t k_def)
    then have "key_count k (pre @ ScaleItem sc # (post @ mid_scs @ bot_scs)) = 1"
      by simp
    from key_count_once [OF this ik]
    have n: "k \<notin> item_key ` set pre" "k \<notin> item_key ` set post"
            "k \<notin> item_key ` set mid_scs" "k \<notin> item_key ` set bot_scs"
      by auto
    have a1: "fst ?s1 k = inferred part (i = 0) (Suc i = length scs) sc (item_key ` set pre)"
      using infer_part_at [of ?s0 sc pre post STATOR_TOP] ov_none n
      by (simp add: t k_def STATOR_TOP pre_empty post_empty)
    have pb: "placed_before top_scs mid_scs bot_scs part i = pre"
      by (simp add: placed_before_def STATOR_TOP pre_def scs_def part_scales_def)
    show ?thesis
    proof (cases "fst ?s1 k")
      case None
      then show ?thesis
        using a1 n by (simp add: infer_part_other pb)
    next
      case (Some a)
      then show ?thesis
        using a1 by (simp add: infer_part_keeps pb)
    qed
  next
    case SLIDE
    then have t: "mid_scs = pre @ ScaleItem sc # post"
      using scs by (simp add: scs_def part_scales_def)
    have "key_count k (top_scs @ (pre @ ScaleItem sc # post) @ bot_scs) = 1"
      using once by (simp add: t k_def)
    then have "key_count k ((top_scs @ pre) @ ScaleItem sc # (post @ bot_scs)) = 1"
      by simp
    from key_count_once [OF this ik]
    have n: "k \<notin> item_key ` set pre" "k \<notin> item_key ` set post"
            "k \<notin> item_key ` set top_scs" "k \<notin> item_key ` set bot_scs"
      by auto
    have b1: "fst ?s1 k = None"
      using n ov_none by (simp add: infer_part_other)
    have sn: "snd ?s1 = item_key ` set top_scs"
      by (simp add: infer_part_seen)
    have a1: "fst ?s2 k = inferred part (i = 0) (Suc i = length scs) sc
                (item_key ` set top_scs \<union> item_key ` set pre)"
      using infer_part_at [of ?s1 sc pre post SLIDE] b1 n
      by (simp add: t k_def SLIDE pre_empty post_empty sn)
    have pb: "placed_before top_scs mid_scs bot_scs part i = top_scs @ pre"
      by (simp add: placed_before_def SLIDE pre_def scs_def part_scales_def)
    show ?thesis
    proof (cases "fst ?s2 k")
      case None
      then show ?thesis
        using a1 n by (simp add: infer_part_other pb image_Un)
    next
      case (Some a)
      then show ?thesis
        using a1 by (simp add: infer_part_keeps pb image_Un)
    qed
  next
    case STATOR_BOTTOM
    then have t: "bot_scs = pre @ ScaleItem sc # post"
      using scs by (simp add: scs_def part_scales_def)
    have "key_count k (top_scs @ mid_scs @ (pre @ ScaleItem sc # post)) = 1"
      using once by (simp add: t k_def)
    then have "key_count k ((top_scs @ mid_scs @ pre) @ ScaleItem sc # post) = 1"
      by simp
    from key_count_once [OF this ik]
    have n: "k \<notin> item_key ` set pre" "k \<notin> item_key ` set post"
            "k \<notin> item_key ` set top_scs" "k \<notin> item_key ` set mid_scs"
      by auto
    have b2: "fst ?s2 k = None"
      using n ov_none by (simp add: infer_part_other)
    have sn: "snd ?s2 = item_key ` set top_scs \<union> item_key ` set mid_scs"
      by (simp add: infer_part_seen)
    have pb: "placed_before top_scs mid_scs bot_scs part i = top_scs @ mid_scs @ pre"
      by (simp add: placed_before_def STATOR_BOTTOM pre_def scs_def part_scales_def)
    show ?thesis
      unfolding pb
      using infer_part_at [of ?s2 sc pre post STATOR_BOTTOM] b2 n
      by (simp add: t k_def STATOR_BOTTOM pre_empty post_empty sn image_Un Un_assoc)
  qed
  show ?thesis
    using final
    by (auto simp add: res scale_al_def Let_def k_def inferred_def scs_def split: option.splits)
qed

lemma Scales_keys:
  "key Scales_A = ''A''" "key Scales_B = ''B''" "key Scales_CI = ''CI''"
  "key Scales_C = ''C''" "key Scales_D = ''D''" "key Scales_K = ''K''"
  by (simp_all add: Scales_A_def Scales_B_def Scales_CI_def Scales_C_def Scales_D_def
        Scales_K_def mk_scale_def)

lemma Scales_opp_keys:
  "opp_key Scales_A = Some ''B''" "opp_key Scales_B = Some ''A''"
  "opp_key Scales_CI = Some ''DI''" "opp_key Scales_C = Some ''D''"
  "opp_key Scales_D = Some ''C''" "opp_key Scales_K = None"
  by (simp_all add: Scales_A_def Scales_B_def Scales_CI_def Scales_C_def Scales_D_def
        Scales_K_def mk_scale_def)

text \<open>
  Witness for C4 (amended): the front of the layout \<open>A/B CI C/D K\<close>. \<open>D\<close> is the first
  scale of the lower stator and its partner \<open>C\<close> was placed before it: upper.
\<close>

theorem infer_side_alignment_witness:
  "0 < length (part_scales [ScaleItem Scales_A]
                 [ScaleItem Scales_B, ScaleItem Scales_CI, ScaleItem Scales_C]
                 [ScaleItem Scales_D, ScaleItem Scales_K] STATOR_BOTTOM)
   \<and> part_scales [ScaleItem Scales_A]
         [ScaleItem Scales_B, ScaleItem Scales_CI, ScaleItem Scales_C]
         [ScaleItem Scales_D, ScaleItem Scales_K] STATOR_BOTTOM ! 0 = ScaleItem Scales_D
   \<and> key Scales_D \<notin> dom (Map.empty :: aligns)
   \<and> key_count (key Scales_D)
         ([ScaleItem Scales_A] @ [ScaleItem Scales_B, ScaleItem Scales_CI, ScaleItem Scales_C]
            @ [ScaleItem Scales_D, ScaleItem Scales_K]) = 1
   \<and> scale_al
        (infer_side Map.empty [ScaleItem Scales_A]
           [ScaleItem Scales_B, ScaleItem Scales_CI, ScaleItem Scales_C]
           [ScaleItem Scales_D, ScaleItem Scales_K])
        Scales_D STATOR_BOTTOM = UPPER"
proof -
  have a: "0 < length (part_scales [ScaleItem Scales_A]
                 [ScaleItem Scales_B, ScaleItem Scales_CI, ScaleItem Scales_C]
                 [ScaleItem Scales_D, ScaleItem Scales_K] STATOR_BOTTOM)"
    by (simp add: part_scales_def)
  have b: "part_scales [ScaleItem Scales_A]
         [ScaleItem Scales_B, ScaleItem Scales_CI, ScaleItem Scales_C]
         [ScaleItem Scales_D, ScaleItem Scales_K] STATOR_BOTTOM ! 0 = ScaleItem Scales_D"
    by (simp add: part_scales_def)
  have c: "key Scales_D \<notin> dom (Map.empty :: aligns)"
    by simp
  have d: "key_count (key Scales_D)
         ([ScaleItem Scales_A] @ [ScaleItem Scales_B, ScaleItem Scales_CI, ScaleItem Scales_C]
            @ [ScaleItem Scales_D, ScaleItem Scales_K]) = 1"
    by (simp add: key_count_def item_key_def Scales_keys)
  show ?thesis
    using infer_side_alignment [OF a b c d] a b c d
    by (simp add: opp_truthy_def Scales_opp_keys placed_before_def item_key_def Scales_keys)
qed

text \<open>
  Counterexample to C4 as stated: in the same layout \<open>K\<close> stands in the lower stator and
  has no opposite partner. The claim gives it the lower alignment; no alignment is
  stored for it, and \<open>scale_al\<close> answers with the default of the lower stator, upper.
\<close>

theorem lower_stator_without_partner_is_upper:
  "opp_key Scales_K = None
   \<and> scale_al
        (infer_side Map.empty [ScaleItem Scales_A]
           [ScaleItem Scales_B, ScaleItem Scales_CI, ScaleItem Scales_C]
           [ScaleItem Scales_D, ScaleItem Scales_K])
        Scales_K STATOR_BOTTOM = UPPER"
  by (simp add: scale_al_def infer_side_def infer_part_def infer_loop_def infer_step_def
        item_key_def Scales_keys Scales_opp_keys opp_truthy_def Let_def)

section \<open>Layout parsing and validation\<close>

text \<open>
  C7. A line with no \<open>/\<close> and no bracket pair: \<open>parts_of_side_layout\<close> returns the line
  followed by two empty parts, and \<open>parse_side_layout\<close> unpacks three parts as upper
  stator, slide, lower stator. The keys of the line \<open>C D\<close> are in the upper stator and
  the slide has none, where the claim puts them in the slide.
\<close>

theorem no_delimiter_line_goes_to_the_upper_stator:
  "parse_side_layout (Some ''C D'')
     = \<lparr>stator_top = Some [''C'', ''D''], slide = None, stator_bottom = None\<rparr>"
  by code_simp



text \<open>
  What the constructor does after its first step has given a front and a rear text.
  When every key of the parsed arrangement is looked up to a scale or a ruler, it
  returns a layout; when a key is an attribute of neither namespace, it raises
  \<open>ValueError\<close> and the message ends with the first such key; when every key is an
  attribute and one is looked up to something else, the check passes and
  \<open>infer_aligns\<close> raises \<open>AttributeError\<close>.
\<close>

lemma check_names_ok:
  "\<forall>k\<in>set ks. hasattr_name ns class_attrs k \<Longrightarrow> check_names ns class_attrs ks = Inr ()"
  by (induction ks) auto

lemma check_names_fail:
  "find (\<lambda>k. \<not> hasattr_name ns class_attrs k) ks = Some k
     \<Longrightarrow> check_names ns class_attrs ks
           = Inl (ValueError (''Unrecognized front scale name: '' @ k))"
  by (induction ks) (auto split: if_splits)

lemma item_of_hasattr:
  "item_of (getattr_or ns class_attrs k) = Some x \<Longrightarrow> hasattr_name ns class_attrs k"
  by (auto simp add: item_of_def getattr_or_def hasattr_name_def
        split: option.splits pyattr.splits if_splits)

lemma those_items:
  "\<forall>k\<in>set ks. \<exists>x. item_of (getattr_or ns class_attrs k) = Some x
     \<Longrightarrow> \<exists>xs. those (map item_of (map (getattr_or ns class_attrs) ks)) = Some xs"
proof (induction ks)
  case Nil
  then show ?case by simp
next
  case (Cons k ks)
  then obtain xs where xs: "those (map item_of (map (getattr_or ns class_attrs) ks)) = Some xs"
    by auto
  from Cons.prems obtain x where "item_of (getattr_or ns class_attrs k) = Some x"
    by auto
  with xs show ?case by simp
qed

lemma those_items_none:
  "k \<in> set ks \<Longrightarrow> item_of (getattr_or ns class_attrs k) = None
     \<Longrightarrow> those (map item_of (map (getattr_or ns class_attrs) ks)) = None"
  by (induction ks) (auto split: option.splits)

lemma part_keys_in_order:
  "set (or_empty (sc_keys_at ks side part)) \<subseteq> set (sc_keys_in_order ks)"
  by (cases side; cases part) (auto simp add: sc_keys_in_order_def)

lemma keys_in_some_part:
  "k \<in> set (sc_keys_in_order ks)
     \<Longrightarrow> \<exists>side part. k \<in> set (or_empty (sc_keys_at ks side part))"
  by (auto simp add: sc_keys_in_order_def)

lemma infer_aligns_side_ok:
  assumes "\<forall>k\<in>set (sc_keys_in_order ks). \<exists>x. item_of (getattr_or ns class_attrs k) = Some x"
  shows "\<exists>a. infer_aligns_side ks ns class_attrs side ov = Inr a"
proof -
  have r: "\<exists>xs. those (map item_of (scales_at ks ns class_attrs side part)) = Some xs" for part
    unfolding scales_at_def
    using assms part_keys_in_order [of ks side part] by (intro those_items) blast
  obtain t where t: "those (map item_of (scales_at ks ns class_attrs side STATOR_TOP)) = Some t"
    using r by blast
  obtain m where m: "those (map item_of (scales_at ks ns class_attrs side SLIDE)) = Some m"
    using r by blast
  obtain b where b: "those (map item_of (scales_at ks ns class_attrs side STATOR_BOTTOM)) = Some b"
    using r by blast
  show ?thesis by (simp add: infer_aligns_side_def t m b)
qed

lemma infer_aligns_side_raises:
  assumes "k \<in> set (or_empty (sc_keys_at ks side part))"
    and "item_of (getattr_or ns class_attrs k) = None"
  shows "infer_aligns_side ks ns class_attrs side ov = Inl AttributeError"
proof -
  have "those (map item_of (scales_at ks ns class_attrs side part)) = None"
    unfolding scales_at_def using assms by (rule those_items_none)
  then show ?thesis
    by (cases part) (auto simp add: infer_aligns_side_def split: option.splits)
qed

lemma Layout_init_known_names:
  assumes "split_front_rear front_str rear_str = Inr (f, r)"
    and "\<forall>k\<in>set (sc_keys_in_order (parse_sides f r)).
           \<exists>x. item_of (getattr_or ns class_attrs k) = Some x"
  shows "\<exists>L. Layout_init front_str rear_str ns class_attrs ao = Inr L
           \<and> sc_keys L = parse_sides f r"
proof -
  have "\<forall>k\<in>set (sc_keys_in_order (parse_sides f r)). hasattr_name ns class_attrs k"
    using assms(2) item_of_hasattr by blast
  then have c: "check_scales (parse_sides f r) ns class_attrs = Inr ()"
    by (simp add: check_scales_def check_names_ok)
  obtain fa where fa: "infer_aligns_side (parse_sides f r) ns class_attrs FRONT
                         (get_overrides ao FRONT) = Inr fa"
    using infer_aligns_side_ok [OF assms(2)] by blast
  obtain ra where ra: "infer_aligns_side (parse_sides f r) ns class_attrs REAR
                         (get_overrides ao REAR) = Inr ra"
    using infer_aligns_side_ok [OF assms(2)] by blast
  show ?thesis
    by (simp add: Layout_init_def assms(1) c fa ra)
qed

lemma Layout_init_unknown_name:
  assumes "split_front_rear front_str rear_str = Inr (f, r)"
    and "find (\<lambda>k. \<not> hasattr_name ns class_attrs k) (sc_keys_in_order (parse_sides f r)) = Some k"
  shows "Layout_init front_str rear_str ns class_attrs ao
           = Inl (ValueError (''Unrecognized front scale name: '' @ k))"
proof -
  have "check_scales (parse_sides f r) ns class_attrs
          = Inl (ValueError (''Unrecognized front scale name: '' @ k))"
    using assms(2) by (simp add: check_scales_def check_names_fail)
  then show ?thesis
    by (simp add: Layout_init_def assms(1))
qed

lemma Layout_init_non_scale_attribute:
  assumes "split_front_rear front_str rear_str = Inr (f, r)"
    and "\<forall>k\<in>set (sc_keys_in_order (parse_sides f r)). hasattr_name ns class_attrs k"
    and "k \<in> set (sc_keys_in_order (parse_sides f r))"
    and "item_of (getattr_or ns class_attrs k) = None"
  shows "Layout_init front_str rear_str ns class_attrs ao = Inl AttributeError"
proof -
  have c: "check_scales (parse_sides f r) ns class_attrs = Inr ()"
    using assms(2) by (simp add: check_scales_def check_names_ok)
  obtain side part where sp: "k \<in> set (or_empty (sc_keys_at (parse_sides f r) side part))"
    using keys_in_some_part [OF assms(3)] by blast
  have bad: "infer_aligns_side (parse_sides f r) ns class_attrs side ov = Inl AttributeError" for ov
    using sp assms(4) by (rule infer_aligns_side_raises)
  show ?thesis
  proof (cases side)
    case FRONT
    then show ?thesis
      using bad by (simp add: Layout_init_def assms(1) c)
  next
    case REAR
    show ?thesis
    proof (cases "infer_aligns_side (parse_sides f r) ns class_attrs FRONT
                    (get_overrides ao FRONT)")
      case (Inl e)
      then have "e = AttributeError"
        by (auto simp add: infer_aligns_side_def split: option.splits)
      with Inl show ?thesis
        by (simp add: Layout_init_def assms(1) c)
    next
      case (Inr fa)
      then show ?thesis
        using bad REAR by (simp add: Layout_init_def assms(1) c)
    qed
  qed
qed

lemma parse_sides_A_XX:
  "parse_sides ''A/XX'' None
     = (\<lambda>side. \<lparr>stator_top = None, slide = None, stator_bottom = None\<rparr>)"
proof (rule ext)
  fix side
  have f: "parse_side_layout (Some ''A/XX'')
             = \<lparr>stator_top = None, slide = None, stator_bottom = None\<rparr>"
    by code_simp
  have r: "parse_side_layout None
             = \<lparr>stator_top = None, slide = None, stator_bottom = None\<rparr>"
    by (simp add: parse_side_layout_def)
  show "parse_sides ''A/XX'' None side
          = \<lparr>stator_top = None, slide = None, stator_bottom = None\<rparr>"
    by (simp add: parse_sides_def f r split: Side.split)
qed

text \<open>
  C6. Two layout texts on which construction departs from the claim, in every
  namespace. The text \<open>C\<close> followed by a line feed: its one key can be a known scale,
  and construction raises on unpacking the one line of \<open>splitlines()\<close> into two. The
  text \<open>A/XX\<close>: one \<open>/\<close> cuts the line in two parts, \<open>parse_side_layout\<close> handles one
  part and three, and the side is left without keys; \<open>XX\<close> is never checked and
  construction succeeds, also where \<open>XX\<close> is the name of nothing.
\<close>

theorem Layout_init_slips:
  "Layout_init [CHR ''C'', CHR 0x0A] None ns class_attrs ao
     = Inl (ValueError ''not enough values to unpack (expected 2, got 1)'')
   \<and> parse_side_layout (Some ''A/XX'')
       = \<lparr>stator_top = None, slide = None, stator_bottom = None\<rparr>
   \<and> (\<exists>L. Layout_init ''A/XX'' None ns class_attrs ao = Inr L
          \<and> sc_keys_in_order (sc_keys L) = [])"
proof -
  have 1: "Layout_init [CHR ''C'', CHR 0x0A] None ns class_attrs ao
       = Inl (ValueError ''not enough values to unpack (expected 2, got 1)'')"
    by (simp add: Layout_init_def split_front_rear_def splitlines_def is_linebreak_def)
  have f: "parse_side_layout (Some ''A/XX'')
             = \<lparr>stator_top = None, slide = None, stator_bottom = None\<rparr>"
    by code_simp
  have 2: "\<exists>L. Layout_init ''A/XX'' None ns class_attrs ao = Inr L
              \<and> sc_keys_in_order (sc_keys L) = []"
    by (simp add: Layout_init_def split_front_rear_def parse_sides_A_XX check_scales_def
          sc_keys_in_order_def sc_keys_at_def keys_at_def or_empty_def
          infer_aligns_side_def scales_at_def)
  show ?thesis using 1 f 2 by simp
qed

text \<open>
  A third one, in a namespace class that has \<open>__doc__\<close> as every class has: the key
  \<open>__doc__\<close> is neither a scale nor a ruler, \<open>hasattr\<close> holds for it, and the error is
  an \<open>AttributeError\<close> that does not name the key.
\<close>

lemma keys_doc:
  "sc_keys_in_order (parse_sides ''[__doc__]'' (Some [])) = [''__doc__'']"
  by code_simp

lemma Layout_init_doc_attribute:
  assumes "class_attrs ''__doc__'' = Some b"
  shows "Layout_init ''[__doc__]'' (Some []) (Scales_sample class_attrs) class_attrs ao
           = Inl AttributeError"
proof -
  have s: "split_front_rear ''[__doc__]'' (Some []) = Inr (''[__doc__]'', Some [])"
    by (simp add: split_front_rear_def)
  have a: "Scales_sample class_attrs ''__doc__'' = Some (OtherAttr b)"
    using assms by (simp add: Scales_sample_def class_namespace_def)
  have r: "Rulers class_attrs ''__doc__'' = Some (OtherAttr b)"
    using assms by (simp add: Rulers_def class_namespace_def)
  have h: "\<forall>k\<in>set (sc_keys_in_order (parse_sides ''[__doc__]'' (Some []))).
             hasattr_name (Scales_sample class_attrs) class_attrs k"
    using a by (simp add: keys_doc hasattr_name_def dom_def)
  have n: "item_of (getattr_or (Scales_sample class_attrs) class_attrs ''__doc__'') = None"
    by (simp add: getattr_or_def a r item_of_def attr_truthy_def)
  show ?thesis
    using Layout_init_non_scale_attribute [OF s h _ n] by (simp add: keys_doc)
qed

section \<open>Bounds on decimal logarithms\<close>

lemma exp_2_le_10: "exp (2::real) \<le> 10"
proof -
  have "exp (2::real) = exp 1 ^ 2"
    using exp_double [of "1::real"] by simp
  also have "\<dots> \<le> 3 ^ 2"
    using exp_le by (intro power_mono) auto
  finally show ?thesis by simp
qed

lemma exp_5_2_ge_10: "(10::real) \<le> exp (5 / 2)"
proof -
  have h: "(13 / 8 :: real) \<le> exp (1 / 2)"
    using exp_lower_Taylor_quadratic [of "1 / 2 :: real"] by (simp add: power2_eq_square)
  have "exp (5 / 2 :: real) = exp (1 / 2) ^ 5"
    using exp_of_nat_mult [of 5 "1 / 2 :: real"] by simp
  moreover have "(13 / 8 :: real) ^ 5 \<le> exp (1 / 2) ^ 5"
    using h by (intro power_mono) auto
  moreover have "(10::real) \<le> (13 / 8) ^ 5"
    by (simp add: power_divide)
  ultimately show ?thesis by linarith
qed

lemma ln_10_bounds: "2 \<le> ln (10::real)" "ln (10::real) \<le> 5 / 2"
proof -
  show "2 \<le> ln (10::real)"
    using exp_2_le_10 by (simp add: ln_ge_iff)
  have "ln (10::real) \<le> ln (exp (5 / 2))"
    using exp_5_2_ge_10 by (subst ln_le_cancel_iff) auto
  then show "ln (10::real) \<le> 5 / 2" by simp
qed

lemma log10_diff_upper:
  fixes a b :: real
  assumes "0 < a" and "a \<le> b"
  shows "log 10 b - log 10 a \<le> (b - a) / a / 2"
proof -
  have pos: "0 < b" using assms by linarith
  have "ln (b / a) \<le> b / a - 1"
    using assms pos by (intro ln_le_minus_one) simp
  also have "\<dots> = (b - a) / a"
    using assms by (simp add: field_simps)
  finally have l: "ln b - ln a \<le> (b - a) / a"
    using assms pos by (simp add: ln_div)
  have nn: "0 \<le> ln b - ln a"
    using assms pos by simp
  have "log 10 b - log 10 a = (ln b - ln a) / ln 10"
    by (simp add: log_def diff_divide_distrib)
  also have "\<dots> \<le> (ln b - ln a) / 2"
    using nn ln_10_bounds(1) by (intro divide_left_mono) auto
  also have "\<dots> \<le> (b - a) / a / 2"
    using divide_right_mono [OF l, of 2] by simp
  finally show ?thesis .
qed

lemma log10_diff_lower:
  fixes a b :: real
  assumes "0 < a" and "a \<le> b"
  shows "2 / 5 * ((b - a) / b) \<le> log 10 b - log 10 a"
proof -
  have pos: "0 < b" using assms by linarith
  have "ln (a / b) \<le> a / b - 1"
    using assms pos by (intro ln_le_minus_one) simp
  then have "ln a - ln b \<le> a / b - 1"
    using assms pos by (simp add: ln_div)
  moreover have "1 - a / b = (b - a) / b"
    using pos by (simp add: field_simps)
  ultimately have l: "(b - a) / b \<le> ln b - ln a"
    by linarith
  have nn: "0 \<le> (b - a) / b"
    using assms pos by simp
  have l10: "0 < ln (10::real)" by simp
  have "2 / 5 * ((b - a) / b) = ((b - a) / b) / (5 / 2)"
    by (simp add: field_simps)
  also have "\<dots> \<le> ((b - a) / b) / ln 10"
    using nn ln_10_bounds(2) l10 by (intro divide_left_mono) auto
  also have "\<dots> \<le> (ln b - ln a) / ln 10"
    using l l10 by (intro divide_right_mono) auto
  also have "\<dots> = log 10 b - log 10 a"
    by (simp add: log_def diff_divide_distrib)
  finally show ?thesis .
qed

section \<open>Numerals and transforms\<close>

lemma log10_25_not_int: "\<not> log10_is_integer 25"
proof
  assume "log10_is_integer 25"
  then obtain k :: int where k: "log 10 25 = of_int k"
    by (auto simp add: log10_is_integer_def elim: Ints_cases)
  have "1 < log 10 (25::real)" by simp
  moreover have "log 10 (25::real) < 2"
    by (subst log_less_iff) (simp_all add: powr_numeral)
  ultimately have "1 < k" and "k < 2"
    using k by simp_all
  then show False by linarith
qed

text \<open>
  C5. At the tick value 25: it is no power of ten, it is not divisible by 10 and it is
  not below 1, so \<open>sig_digit_of\<close> takes no branch and returns the value itself, 25,
  whatever text \<open>str\<close> gives; the leading digit of that value, which the claim
  states, is 2.
\<close>

theorem sig_digit_of_25_is_25:
  "sig_digit_of str_float 25 = Inr (PyFloat 25)
   \<and> first_digit_of (\<lambda>x. ''25.0'') 25 = Inr 2"
  by (simp add: sig_digit_of_def log10_25_not_int fmod10_def first_digit_of_def int_of_char_def)

text \<open>The decade-log transform is inverted by its inverse on the positive reals.\<close>

lemma Base_round_trip:
  "0 < v \<Longrightarrow> bind_res (position_of ScaleFNs_Base v) (value_at ScaleFNs_Base) = Inr v"
  by (simp add: bind_res_def position_of_def value_at_def ScaleFNs_Base_def gen_base_def
        pos_base_def)

text \<open>
  C2. The transform \<open>InverseSquare\<close> at the value 1, which lies in its domain: the
  position of 1 is 1, and the value at position 1 is a tenth. The forward function is
  \<open>1 - log10(x) / 2\<close> and the inverse is \<open>10 ** (1 - 2 p)\<close>, which inverts
  \<open>(1 - log10(x)) / 2\<close>.
\<close>

theorem InverseSquare_round_trip_at_1:
  "clamp_input ScaleFNs_InverseSquare 1 = 1
   \<and> position_of ScaleFNs_InverseSquare 1 = Inr 1
   \<and> value_at ScaleFNs_InverseSquare 1 = Inr (1 / 10)"
  by (simp add: clamp_input_def clamp_def ScaleFNs_InverseSquare_def \<epsilon>_def position_of_def
        value_at_def gen_base_def map_res_def pos_base_def powr_minus_divide)

section \<open>Automatic graduation\<close>

lemma L_start_end: "value_at_start Scales_L = Inr 0" "value_at_end Scales_L = Inr 10"
  by (simp_all add: value_at_start_def value_at_end_def value_at_frac_pos_def pos_fn_def
        Scales_L_def mk_scale_def ScaleFNs_Log10_def)

text \<open>
  Counterexample to C10 as stated: scale \<open>L\<close> has the value 0 at its start, so a call
  with the start 0 and the end 10 graduates a segment that begins exactly at 0.
\<close>

theorem zero_start_on_scale_L_begins_at_zero:
  "value_at_start Scales_L = Inr 0
   \<and> pat_auto_range Scales_L (Some 0) (Some 10) = Inr (0, 10)"
  by (simp add: L_start_end pat_auto_range_def endpoint_or_def bind_res_def)

text \<open>
  C10 (amended). An endpoint of \<open>pat_auto\<close> given as 0 is replaced like one that is not
  given: the start by \<open>value_at_start()\<close> of the scale, the end by \<open>value_at_end()\<close>;
  the range, and with it everything that is drawn, is the same as without the
  endpoint. So a segment begins or ends exactly at 0 only when the value of the scale
  at its start or at its end is 0.
\<close>

theorem pat_auto_zero_endpoint_replaced:
  "pat_auto_range sc (Some 0) x_end
     = bind_res (value_at_start sc) (\<lambda>xs.
       bind_res (endpoint_or x_end (value_at_end sc)) (\<lambda>xe.
         Inr (if xe < xs then (xe, xs) else (xs, xe))))
   \<and> pat_auto_range sc x_start (Some 0)
     = bind_res (endpoint_or x_start (value_at_start sc)) (\<lambda>xs.
       bind_res (value_at_end sc) (\<lambda>xe.
         Inr (if xe < xs then (xe, xs) else (xs, xe))))
   \<and> pat_auto_range sc (Some 0) x_end = pat_auto_range sc None x_end
   \<and> pat_auto_range sc x_start (Some 0) = pat_auto_range sc x_start None
   \<and> pat_auto str_float g s sc (Some 0) x_end il = pat_auto str_float g s sc None x_end il
   \<and> pat_auto str_float g s sc x_start (Some 0) il = pat_auto str_float g s sc x_start None il
   \<and> (\<forall>a b. pat_auto_range sc x_start x_end = Inr (a, b) \<longrightarrow> a = 0 \<or> b = 0
          \<longrightarrow> value_at_start sc = Inr 0 \<or> value_at_end sc = Inr 0)"
proof -
  have ends: "value_at_start sc = Inr 0 \<or> value_at_end sc = Inr 0"
    if "pat_auto_range sc x_start x_end = Inr (a, b)" and "a = 0 \<or> b = 0" for a b
  proof -
    have "\<exists>xs. endpoint_or x_start (value_at_start sc) = Inr xs"
    proof (cases "endpoint_or x_start (value_at_start sc)")
      case (Inl e)
      with that(1) show ?thesis
        by (simp add: pat_auto_range_def bind_res_def)
    next
      case (Inr v)
      then show ?thesis by simp
    qed
    then obtain xs where xs: "endpoint_or x_start (value_at_start sc) = Inr xs"
      by blast
    have "\<exists>xe. endpoint_or x_end (value_at_end sc) = Inr xe"
    proof (cases "endpoint_or x_end (value_at_end sc)")
      case (Inl e)
      with that(1) xs show ?thesis
        by (simp add: pat_auto_range_def bind_res_def)
    next
      case (Inr v)
      then show ?thesis by simp
    qed
    then obtain xe where xe: "endpoint_or x_end (value_at_end sc) = Inr xe"
      by blast
    have ab: "(a, b) = (if xe < xs then (xe, xs) else (xs, xe))"
      using that(1) by (simp add: pat_auto_range_def bind_res_def xs xe)
    from ab that(2) have "xs = 0 \<or> xe = 0"
      by (auto split: if_splits)
    then show ?thesis
    proof
      assume "xs = 0"
      with xs show ?thesis
        by (auto simp add: endpoint_or_def split: option.splits if_splits)
    next
      assume "xe = 0"
      with xe show ?thesis
        by (auto simp add: endpoint_or_def split: option.splits if_splits)
    qed
  qed
  show ?thesis
    using ends
    by (simp add: pat_auto_def pat_auto_args_def pat_auto_range_def endpoint_or_def)
qed

text \<open>
  Witness for C10 (amended): scale \<open>L\<close> with the start given as 0 and no end. The range
  is that of the call with no endpoint, from 0 to 10, and 0 is the start value of the
  scale.
\<close>

theorem pat_auto_zero_endpoint_replaced_witness:
  "pat_auto_range Scales_L (Some 0) None = Inr (0, 10)
   \<and> pat_auto_range Scales_L None None = Inr (0, 10)
   \<and> (value_at_start Scales_L = Inr 0 \<or> value_at_end Scales_L = Inr 0)"
proof -
  have r: "pat_auto_range Scales_L (Some 0) None = Inr (0, 10)"
    by (simp add: L_start_end pat_auto_range_def endpoint_or_def bind_res_def)
  from pat_auto_zero_endpoint_replaced [of Scales_L None "Some 0"]
  have same: "pat_auto_range Scales_L (Some 0) None = pat_auto_range Scales_L None None"
    and ends: "\<forall>a b. pat_auto_range Scales_L (Some 0) None = Inr (a, b) \<longrightarrow> a = 0 \<or> b = 0
                 \<longrightarrow> value_at_start Scales_L = Inr 0 \<or> value_at_end Scales_L = Inr 0"
    by blast+
  from ends r have "value_at_start Scales_L = Inr 0 \<or> value_at_end Scales_L = Inr 0"
    by blast
  with r same show ?thesis by simp
qed

text \<open>The linear scale \<open>L\<close> on the range from 9 to 10, where every logarithm is exact.\<close>

lemma demo_geometry_fields:
  "SL (demo_geometry a b) = a" "STT (demo_geometry a b) = b"
  "scale_h_ratio (demo_geometry a b) sc = None"
  by (simp_all add: demo_geometry_def)

lemma fixed_width_style_width: "sym_width (fixed_width_style w) txt font = w"
  by (simp add: fixed_width_style_def)

lemma L_range: "pat_auto_range Scales_L (Some 9) (Some 10) = Inr (9, 10)"
  by (simp add: pat_auto_range_def endpoint_or_def bind_res_def)

lemma L_frac: "frac_pos_of Scales_L x 0 = Inr (x / 10)"
  by (simp add: frac_pos_of_def gen_fn_def Scales_L_def mk_scale_def ScaleFNs_Log10_def map_res_def)

lemma L_clamp: "clamp_input (scaler Scales_L) x = max x \<epsilon>"
  by (simp add: clamp_input_def clamp_def Scales_L_def mk_scale_def ScaleFNs_Log10_def)

lemma L_offset: "\<epsilon> \<le> a \<Longrightarrow> \<epsilon> \<le> b \<Longrightarrow> offset_between Scales_L a b w = Inr (\<bar>b / 10 - a / 10\<bar> * w)"
  by (simp add: offset_between_def L_frac L_clamp bind_res_def max_def)

lemma eps_small: "\<epsilon> \<le> 1" "0 < \<epsilon>"
  by (simp_all add: \<epsilon>_def)

lemma L_scale: "pat_auto_scale Scales_L 9 10 = Inr (10000, 10000)"
proof -
  have l: "log 10 (1 / 10 :: real) = - 1"
    by (simp add: log_recip)
  have o: "offset_between Scales_L 9 10 1 = Inr (1 / 10)"
    using eps_small by (subst L_offset) auto
  have c: "\<lceil>- (1 / 20 :: real)\<rceil> = 0"
    by (rule ceiling_unique) simp_all
  show ?thesis
    by (simp add: pat_auto_scale_def truediv_def gen_base_def bind_res_def l o py_int_def Let_def c)
qed

lemma L_gap:
  assumes "0 < i"
  shows "tick_gap Scales_L 9 10 10000 10000 w i = Inr (of_int w / (10 * of_int i))"
proof -
  have d: "0 < 1 / real_of_int i" "1 / real_of_int i \<le> 1"
    using assms by (auto simp add: field_simps)
  have e: "\<epsilon> \<le> 9" "\<epsilon> \<le> 9 + 1 / of_int i" "\<epsilon> \<le> 10 - 1 / of_int i" "\<epsilon> \<le> 10"
    using eps_small d by linarith+
  have a: "offset_between Scales_L 9 (9 + 1 / of_int i) (of_int w) = Inr (of_int w / (10 * of_int i))"
    using d by (simp add: L_offset [OF e(1) e(2)] add_divide_distrib)
  have b: "offset_between Scales_L (10 - 1 / of_int i) 10 (of_int w) = Inr (of_int w / (10 * of_int i))"
    using d by (simp add: L_offset [OF e(3) e(4)] diff_divide_distrib)
  show ?thesis
    using assms by (simp add: tick_gap_def min_offset_for_delta_def a b bind_res_def)
qed

lemma L_numeral_gap: "min_offset_for_delta Scales_L 9 10 1 (of_int w) = Inr (of_int w / 10)"
  using L_gap [of 1 w] by (simp add: tick_gap_def)

lemma L_sub_div_2500:
  "pat_auto_sub_div (demo_geometry 2500 4) Scales_L 9 10 10000 10000 = Inr (2, 5, 2)"
  by (simp add: pat_auto_sub_div_def demo_geometry_fields TF_MIN_eq L_gap min_tick_offset_def
        bind_res_def TF_BY_MIN_get_simps)

lemma L_sub_div_5600:
  "pat_auto_sub_div (demo_geometry 5600 3) Scales_L 9 10 10000 10000 = Inr (2, 5, 5)"
  by (simp add: pat_auto_sub_div_def demo_geometry_fields TF_MIN_eq L_gap min_tick_offset_def
        bind_res_def TF_BY_MIN_get_simps)

lemma L_args_5600:
  "pat_auto_args (demo_geometry 5600 3) (fixed_width_style 33) Scales_L (Some 9) (Some 10) False
     = Inr \<lparr>i_start = 90000, i_end = 100000, i_sf = 10000,
            steps_i = (10000, 5000, 1000, 200),
            steps_th = (MED, XS, XS, DOT),
            steps_font = (Some (font_for N_LG None), Some (font_for N_SM None),
                          Some (font_for N_XS None)),
            digit1 = (False, False, True)\<rparr>"
  using L_numeral_gap [of 5600]
  by (simp add: pat_auto_args_def L_range L_scale L_sub_div_5600 bind_res_def t_s_def floordiv_def
        py_int_def py_mod_def demo_geometry_fields fixed_width_style_width
        float_floordiv_def steps_font_of_def sub_num_of_def Let_def)

text \<open>
  Counterexample to C8 as stated: scale \<open>L\<close> from 9 to 10, 2500 pixels long, ticks 4
  pixels thick, a glyph 31 pixels wide. The steps are 10000, 5000, 1000 and 500, so the
  finest step is below the third, and 8 characters fit in the gap of 250 pixels; the
  third level has no font.
\<close>

theorem eight_characters_fit_and_no_third_font:
  "pat_auto_args (demo_geometry 2500 4) (fixed_width_style 31) Scales_L (Some 9) (Some 10) False
     = Inr \<lparr>i_start = 90000, i_end = 100000, i_sf = 10000,
            steps_i = (10000, 5000, 1000, 500),
            steps_th = (MED, XS, XS, DOT),
            steps_font = (Some (font_for N_LG None), Some (font_for N_SM None), None),
            digit1 = (False, True, True)\<rparr>
   \<and> min_offset_for_delta Scales_L 9 10 (10000 / 10000) 2500 = Inr 250
   \<and> float_floordiv 250 31 = Inr 8"
  using L_numeral_gap [of 2500]
  by (simp add: pat_auto_args_def L_range L_scale L_sub_div_2500 bind_res_def t_s_def floordiv_def
        py_int_def py_mod_def demo_geometry_fields fixed_width_style_width
        float_floordiv_def steps_font_of_def sub_num_of_def Let_def)

text \<open>
  C8 (amended). When \<open>pat_auto\<close> reaches its call of \<open>pat\<close>, the third tick level has a
  font exactly when the finest step is below the third step, the third step is below
  the outer step, more than 8 characters fit in the numeral gap (the floor of the gap
  by the glyph width is above 8), and the third step is a tenth of the outer step.
\<close>

theorem pat_auto_third_font:
  assumes "pat_auto_args g s sc xs xe il = Inr a"
  shows "\<exists>x_start x_end step_num step2 step3 step4 nto max_num_chars.
           pat_auto_range sc xs xe = Inr (x_start, x_end)
         \<and> steps_i a = (step_num, step2, step3, step4)
         \<and> min_offset_for_delta sc x_start x_end (of_int step_num / of_int (i_sf a))
               (of_int (SL g)) = Inr nto
         \<and> float_floordiv nto (sym_width s ''_'' (font_for N_LG (scale_h_ratio g sc)))
               = Inr max_num_chars
         \<and> ((snd (snd (steps_font a)) \<noteq> None)
              = (step4 < step3 \<and> step3 < step_num \<and> 8 < max_num_chars
                 \<and> step3 = step_num div 10))"
  using assms
  by (auto simp add: pat_auto_args_def bind_res_def Let_def steps_font_of_def sub_num_of_def
        split: sum.splits prod.splits)

text \<open>
  Witness for C8 (amended): scale \<open>L\<close> from 9 to 10 on the default geometry (5600
  pixels, ticks 3 pixels thick) with a glyph 33 pixels wide: steps 10000, 5000, 1000
  and 200, 16 characters, and a font on the third level.
\<close>

theorem pat_auto_third_font_witness:
  "pat_auto_args (demo_geometry 5600 3) (fixed_width_style 33) Scales_L (Some 9) (Some 10) False
     = Inr \<lparr>i_start = 90000, i_end = 100000, i_sf = 10000,
            steps_i = (10000, 5000, 1000, 200),
            steps_th = (MED, XS, XS, DOT),
            steps_font = (Some (font_for N_LG None), Some (font_for N_SM None),
                          Some (font_for N_XS None)),
            digit1 = (False, False, True)\<rparr>
   \<and> (\<exists>max_num_chars.
         float_floordiv 560 (sym_width (fixed_width_style 33) ''_'' (font_for N_LG None))
           = Inr max_num_chars
       \<and> (200 < (1000::int) \<and> 1000 < (10000::int) \<and> 8 < max_num_chars
            \<and> (1000::int) = 10000 div 10))"
proof -
  from pat_auto_third_font [OF L_args_5600]
  obtain x_start x_end step_num step2 step3 step4 nto max_num_chars where
      r: "pat_auto_range Scales_L (Some 9) (Some 10) = Inr (x_start, x_end)"
    and st: "(10000, 5000, 1000, 200) = (step_num, step2, step3, step4)"
    and nt: "min_offset_for_delta Scales_L x_start x_end (of_int step_num / of_int 10000)
               (of_int (SL (demo_geometry 5600 3))) = Inr nto"
    and mc: "float_floordiv nto
               (sym_width (fixed_width_style 33) ''_''
                  (font_for N_LG (scale_h_ratio (demo_geometry 5600 3) Scales_L)))
               = Inr max_num_chars"
    and iff: "(Some (font_for N_XS None) \<noteq> None)
                = (step4 < step3 \<and> step3 < step_num \<and> 8 < max_num_chars
                   \<and> step3 = step_num div 10)"
    by auto
  from r have xs: "x_start = 9" "x_end = 10"
    by (simp_all add: L_range)
  from st have steps: "step_num = 10000" "step3 = 1000" "step4 = 200"
    by simp_all
  from nt have "nto = 560"
    using L_numeral_gap [of 5600] by (simp add: xs steps demo_geometry_fields)
  with mc iff show ?thesis
    by (simp add: L_args_5600 steps demo_geometry_fields)
qed

subsection \<open>The scan of the catalog\<close>

lemma find_in_descending:
  fixes ks :: "int list"
  assumes "sorted_wrt (\<lambda>a b. b < a) ks" and "find P ks = Some k"
  shows "k \<in> set ks \<and> P k \<and> (\<forall>j\<in>set ks. k < j \<longrightarrow> \<not> P j)"
  using assms
proof (induction ks)
  case Nil
  then show ?case by simp
next
  case (Cons a ks)
  show ?case
  proof (cases "P a")
    case True
    with Cons.prems have "k = a" by simp
    with True Cons.prems(1) show ?thesis by auto
  next
    case False
    with Cons.prems have "find P ks = Some k" and "sorted_wrt (\<lambda>a b. b < a) ks"
      by simp_all
    with Cons.IH have "k \<in> set ks \<and> P k \<and> (\<forall>j\<in>set ks. k < j \<longrightarrow> \<not> P j)"
      by simp
    with False show ?thesis by auto
  qed
qed

lemma next_sub_div_find:
  assumes "\<And>i. i \<in> set ks \<Longrightarrow> i \<le> step_num \<Longrightarrow> gap i = Inr (gp i)"
  shows "next_sub_div gap step_num mto ks =
           (case find (\<lambda>i. i \<le> step_num \<and> mto \<le> gp i) ks of
              None \<Rightarrow> TF_BY_MIN_get 1
            | Some k \<Rightarrow> TF_BY_MIN_get k)"
  using assms
proof (induction ks)
  case Nil
  then show ?case by simp
next
  case (Cons i ks)
  have rest: "next_sub_div gap step_num mto ks =
           (case find (\<lambda>i. i \<le> step_num \<and> mto \<le> gp i) ks of
              None \<Rightarrow> TF_BY_MIN_get 1
            | Some k \<Rightarrow> TF_BY_MIN_get k)"
    using Cons.prems by (intro Cons.IH) auto
  show ?case
  proof (cases "i \<le> step_num")
    case True
    then have "gap i = Inr (gp i)"
      using Cons.prems by simp
    with True rest show ?thesis
      by (simp add: bind_res_def)
  next
    case False
    with rest show ?thesis by simp
  qed
qed

lemma TF_MIN_descending: "sorted_wrt (\<lambda>a b. b < a) TF_MIN"
  by (simp add: TF_MIN_eq)

lemma TF_BY_MIN_get_in_catalog:
  "k \<in> set TF_MIN \<Longrightarrow> \<exists>f. map_of TF_BY_MIN k = Some f \<and> TF_BY_MIN_get k = Inr f"
  by (auto simp add: TF_MIN_eq TF_BY_MIN_get_def TF_BY_MIN_def)

text \<open>
  C1 (amended). When the gap of every catalog key up to \<open>step_num\<close> is computed
  (\<open>min_offset_for_delta\<close> does not raise), the scan of \<open>pat_auto\<close> returns an entry
  of the catalog; it never fails. The entry is that of the largest key that is at most
  \<open>step_num\<close> and whose gap is at least the least tick offset; when no key is both, it
  is the entry of key 1. So the gap of the returned entry is below the least tick
  offset only when that entry is the one of key 1.
\<close>

theorem pat_auto_sub_div_first_fit:
  assumes "\<And>i. i \<in> set TF_MIN \<Longrightarrow> i \<le> step_num
             \<Longrightarrow> tick_gap sc x_start x_end step_num sf (SL g) i = Inr (gp i)"
  shows "\<exists>k f. k \<in> set TF_MIN \<and> map_of TF_BY_MIN k = Some f
           \<and> pat_auto_sub_div g sc x_start x_end sf step_num = Inr f
           \<and> ((k \<le> step_num \<and> of_int (min_tick_offset g) \<le> gp k
                 \<and> (\<forall>j\<in>set TF_MIN. k < j
                       \<longrightarrow> \<not> (j \<le> step_num \<and> of_int (min_tick_offset g) \<le> gp j)))
               \<or> (k = 1
                 \<and> (\<forall>j\<in>set TF_MIN.
                       \<not> (j \<le> step_num \<and> of_int (min_tick_offset g) \<le> gp j))))"
proof -
  let ?P = "\<lambda>i. i \<le> step_num \<and> real_of_int (min_tick_offset g) \<le> gp i"
  have scan: "pat_auto_sub_div g sc x_start x_end sf step_num =
           (case find ?P TF_MIN of None \<Rightarrow> TF_BY_MIN_get 1 | Some k \<Rightarrow> TF_BY_MIN_get k)"
    unfolding pat_auto_sub_div_def
    using assms by (intro next_sub_div_find) auto
  show ?thesis
  proof (cases "find ?P TF_MIN")
    case None
    then have none: "\<forall>j\<in>set TF_MIN. \<not> ?P j"
      by (simp add: find_None_iff)
    have "1 \<in> set TF_MIN" by (simp add: TF_MIN_eq)
    moreover obtain f where "map_of TF_BY_MIN 1 = Some f" "TF_BY_MIN_get 1 = Inr f"
      using TF_BY_MIN_get_in_catalog [of 1] by (auto simp add: TF_MIN_eq)
    ultimately have "1 \<in> set TF_MIN \<and> map_of TF_BY_MIN 1 = Some f
           \<and> pat_auto_sub_div g sc x_start x_end sf step_num = Inr f
           \<and> ((1 \<le> step_num \<and> of_int (min_tick_offset g) \<le> gp 1
                 \<and> (\<forall>j\<in>set TF_MIN. 1 < j
                       \<longrightarrow> \<not> (j \<le> step_num \<and> of_int (min_tick_offset g) \<le> gp j)))
               \<or> ((1::int) = 1
                 \<and> (\<forall>j\<in>set TF_MIN.
                       \<not> (j \<le> step_num \<and> of_int (min_tick_offset g) \<le> gp j))))"
      using none scan None by simp
    then show ?thesis by blast
  next
    case (Some k)
    from find_in_descending [OF TF_MIN_descending Some]
    have k: "k \<in> set TF_MIN" "?P k" "\<forall>j\<in>set TF_MIN. k < j \<longrightarrow> \<not> ?P j"
      by auto
    obtain f where "map_of TF_BY_MIN k = Some f" "TF_BY_MIN_get k = Inr f"
      using TF_BY_MIN_get_in_catalog [OF k(1)] by auto
    then have "k \<in> set TF_MIN \<and> map_of TF_BY_MIN k = Some f
           \<and> pat_auto_sub_div g sc x_start x_end sf step_num = Inr f
           \<and> ((k \<le> step_num \<and> of_int (min_tick_offset g) \<le> gp k
                 \<and> (\<forall>j\<in>set TF_MIN. k < j
                       \<longrightarrow> \<not> (j \<le> step_num \<and> of_int (min_tick_offset g) \<le> gp j)))
               \<or> (k = 1
                 \<and> (\<forall>j\<in>set TF_MIN.
                       \<not> (j \<le> step_num \<and> of_int (min_tick_offset g) \<le> gp j))))"
      using k scan Some by simp
    then show ?thesis by blast
  qed
qed

text \<open>
  Witness for C1 (amended): scale \<open>L\<close> from 9 to 10, 2500 pixels long and ticks 4 pixels
  thick. The gap of key \<open>i\<close> is \<open>250 / i\<close> pixels and the least offset is 12: key 20
  is the first that fits.
\<close>

theorem pat_auto_sub_div_first_fit_witness:
  "list_all (\<lambda>i. tick_gap Scales_L 9 10 10000 10000 (SL (demo_geometry 2500 4)) i
                     = Inr (2500 / (10 * of_int i))) TF_MIN
   \<and> pat_auto_sub_div (demo_geometry 2500 4) Scales_L 9 10 10000 10000 = Inr (2, 5, 2)
   \<and> (\<exists>k f. k \<in> set TF_MIN \<and> map_of TF_BY_MIN k = Some f
           \<and> pat_auto_sub_div (demo_geometry 2500 4) Scales_L 9 10 10000 10000 = Inr f
           \<and> ((k \<le> 10000
                 \<and> of_int (min_tick_offset (demo_geometry 2500 4)) \<le> 2500 / (10 * real_of_int k)
                 \<and> (\<forall>j\<in>set TF_MIN. k < j
                       \<longrightarrow> \<not> (j \<le> 10000
                             \<and> of_int (min_tick_offset (demo_geometry 2500 4))
                                 \<le> 2500 / (10 * real_of_int j))))
               \<or> (k = 1
                 \<and> (\<forall>j\<in>set TF_MIN.
                       \<not> (j \<le> 10000
                          \<and> of_int (min_tick_offset (demo_geometry 2500 4))
                              \<le> 2500 / (10 * real_of_int j))))))"
proof -
  have gaps: "tick_gap Scales_L 9 10 10000 10000 (SL (demo_geometry 2500 4)) i
                = Inr (2500 / (10 * of_int i))"
    if "i \<in> set TF_MIN" and "i \<le> 10000" for i
  proof -
    from that(1) have "0 < i" by (auto simp add: TF_MIN_eq)
    then show ?thesis
      using L_gap [of i 2500] by (simp add: demo_geometry_fields)
  qed
  have all: "list_all (\<lambda>i. tick_gap Scales_L 9 10 10000 10000 (SL (demo_geometry 2500 4)) i
                     = Inr (2500 / (10 * of_int i))) TF_MIN"
    using gaps by (simp add: list_all_iff TF_MIN_eq)
  from pat_auto_sub_div_first_fit
         [of 10000 Scales_L 9 10 10000 "demo_geometry 2500 4" "\<lambda>i. 2500 / (10 * of_int i)",
          OF gaps]
  show ?thesis
    using all L_sub_div_2500 by simp
qed

subsection \<open>The decade-log scale\<close>

lemma D_frac: "0 < x \<Longrightarrow> frac_pos_of Scales_D x 0 = Inr (log 10 x)"
  by (simp add: frac_pos_of_def gen_fn_def Scales_D_def mk_scale_def ScaleFNs_Base_def
        map_res_def gen_base_def)

lemma D_clamp: "clamp_input (scaler Scales_D) x = max x \<epsilon>"
  by (simp add: clamp_input_def clamp_def Scales_D_def mk_scale_def ScaleFNs_Base_def)

lemma D_offset:
  assumes "\<epsilon> \<le> a" and "\<epsilon> \<le> b"
  shows "offset_between Scales_D a b w = Inr (\<bar>log 10 b - log 10 a\<bar> * w)"
proof -
  have "0 < a" and "0 < b"
    using assms eps_small(2) by linarith+
  then show ?thesis
    using assms by (simp add: offset_between_def D_frac D_clamp bind_res_def max_def)
qed

lemma D_min_offset_bounds:
  assumes "\<epsilon> \<le> a" and "0 < d" and "a + d \<le> b" and "0 \<le> w"
  shows "\<exists>v. min_offset_for_delta Scales_D a b d w = Inr v
           \<and> 2 / 5 * (d / b) * w \<le> v \<and> v \<le> d / (b - d) / 2 * w"
proof -
  have pos: "0 < a" "0 < a + d" "0 < b - d" "0 < b"
    using assms eps_small(2) by linarith+
  have e: "\<epsilon> \<le> a + d" "\<epsilon> \<le> b - d" "\<epsilon> \<le> b"
    using assms by linarith+
  define p where "p = log 10 (a + d) - log 10 a"
  define q where "q = log 10 b - log 10 (b - d)"
  have p_lo: "2 / 5 * (d / (a + d)) \<le> p"
    using log10_diff_lower [of a "a + d"] pos assms(2) by (simp add: p_def)
  have q_lo: "2 / 5 * (d / b) \<le> q"
    using log10_diff_lower [of "b - d" b] pos assms(2) by (simp add: q_def)
  have q_hi: "q \<le> d / (b - d) / 2"
    using log10_diff_upper [of "b - d" b] pos assms(2) by (simp add: q_def)
  have "d / b \<le> d / (a + d)"
    using pos assms by (intro divide_left_mono) auto
  then have p_lo': "2 / 5 * (d / b) \<le> p"
    using p_lo by linarith
  have "0 \<le> 2 / 5 * (d / b)"
    using pos assms(2) by simp
  then have nn: "0 \<le> p" "0 \<le> q"
    using p_lo' q_lo by linarith+
  have val: "min_offset_for_delta Scales_D a b d w = Inr (min (p * w) (q * w))"
    using nn by (simp add: min_offset_for_delta_def D_offset [OF assms(1) e(1)]
          D_offset [OF e(2) e(3)] bind_res_def p_def q_def)
  have lp: "2 / 5 * (d / b) * w \<le> p * w"
    using p_lo' assms(4) by (rule mult_right_mono)
  have lq: "2 / 5 * (d / b) * w \<le> q * w"
    using q_lo assms(4) by (rule mult_right_mono)
  have lo: "2 / 5 * (d / b) * w \<le> min (p * w) (q * w)"
    using lp lq by simp
  have "min (p * w) (q * w) \<le> q * w" by simp
  also have "\<dots> \<le> d / (b - d) / 2 * w"
    using q_hi assms(4) by (intro mult_right_mono) auto
  finally show ?thesis
    using val lo by blast
qed

lemma log10_2_bounds: "0 < log 10 (2::real)" "log 10 (2::real) < 1"
  by simp_all

lemma pat_auto_scale_eq:
  assumes "truediv (x_end - x_start) (max x_start x_end) = Inr q"
    and "gen_base \<bar>q\<bar> = Inr l"
    and "\<lceil>\<bar>l\<bar>\<rceil> = c"
    and "offset_between sc x_start x_end 1 = Inr fw"
    and "gen_base (x_end - x_start) = Inr ls"
    and "py_int (ls - 0.5 * fw) = t"
  shows "pat_auto_scale sc x_start x_end
           = Inr (10 ^ nat (c + 3), 10 ^ nat (max (t + (c + 3)) 0))"
  using assms by (simp add: pat_auto_scale_def bind_res_def Let_def)

lemma D_scale_small: "pat_auto_scale Scales_D (1 / 1000) (1 / 500) = Inr (10000, 10)"
proof -
  have q: "truediv (1 / 500 - 1 / 1000) (max (1 / 1000) (1 / 500)) = Inr (1 / 2)"
    by (simp add: truediv_def)
  have l: "gen_base \<bar>1 / 2\<bar> = Inr (- log 10 2)"
    by (simp add: gen_base_def log_recip)
  have c: "\<lceil>\<bar>- log 10 (2::real)\<bar>\<rceil> = 1"
    using log10_2_bounds by (intro ceiling_unique) auto
  have e: "\<epsilon> \<le> 1 / 1000" "\<epsilon> \<le> 1 / 500"
    by (simp_all add: \<epsilon>_def)
  have l3: "log 10 (1 / 1000 :: real) = - 3"
    using log_pow_cancel [of "10::real" 3] by (simp add: log_recip)
  have "log 10 (1 / 500 :: real) - log 10 (1 / 1000) = log 10 ((1 / 500) / (1 / 1000))"
    by (rule log_divide_pos [symmetric]) simp_all
  then have d: "log 10 (1 / 500 :: real) - log 10 (1 / 1000) = log 10 2"
    by simp
  have o: "offset_between Scales_D (1 / 1000) (1 / 500) 1 = Inr (log 10 2)"
    using log10_2_bounds unfolding D_offset [OF e] d by simp
  have ls: "gen_base (1 / 500 - 1 / 1000) = Inr (- 3)"
    using l3 by (simp add: gen_base_def)
  have "\<lceil>- 3 - 0.5 * log 10 (2::real)\<rceil> = (- 3 :: int)"
  proof (rule ceiling_unique)
    have "log 10 (2::real) < 2"
      using log10_2_bounds(2) by linarith
    then show "real_of_int (- 3) - 1 < - 3 - 0.5 * log 10 2"
      by simp
    show "- 3 - 0.5 * log 10 2 \<le> real_of_int (- 3)"
      using log10_2_bounds by simp
  qed
  moreover have "\<not> 0 \<le> - 3 - 0.5 * log 10 (2::real)"
    using log10_2_bounds(1) by linarith
  ultimately have t: "py_int (- 3 - 0.5 * log 10 2) = - 3"
    unfolding py_int_def by (simp only: if_False)
  show ?thesis
    using pat_auto_scale_eq [OF q l c o ls t] by simp
qed

text \<open>
  Counterexample to C1 as stated: scale \<open>D\<close> from 0.001 to 0.002, 8000 pixels long and
  ticks 3 pixels thick, so the least offset is 9 pixels. \<open>step_num\<close> is 10. Key 100
  has a gap of at least 9 pixels, so the first entry of the scan that fits by its gap
  is that of key 100 or of a larger key; the scan passes over every key above
  \<open>step_num\<close> and returns the entry of key 10.
\<close>

theorem finer_key_fits_but_is_skipped:
  "pat_auto_scale Scales_D (1 / 1000) (1 / 500) = Inr (10000, 10)
   \<and> min_tick_offset (demo_geometry 8000 3) = 9
   \<and> (\<exists>v. tick_gap Scales_D (1 / 1000) (1 / 500) 10 10000 (SL (demo_geometry 8000 3)) 100 = Inr v
          \<and> 9 \<le> v)
   \<and> pat_auto_sub_div (demo_geometry 8000 3) Scales_D (1 / 1000) (1 / 500) 10000 10 = Inr (2, 5, 1)
   \<and> TF_BY_MIN_get 100 = Inr (10, 2, 5)"
proof -
  have e: "\<epsilon> \<le> 1 / 1000"
    by (simp add: \<epsilon>_def)
  obtain v100 where v100:
      "min_offset_for_delta Scales_D (1 / 1000) (1 / 500) (1 / 100000) 8000 = Inr v100"
      "2 / 5 * (1 / 100000 / (1 / 500)) * 8000 \<le> v100"
    using D_min_offset_bounds [OF e, of "1 / 100000" "1 / 500" 8000] by auto
  obtain v10 where v10:
      "min_offset_for_delta Scales_D (1 / 1000) (1 / 500) (1 / 10000) 8000 = Inr v10"
      "2 / 5 * (1 / 10000 / (1 / 500)) * 8000 \<le> v10"
    using D_min_offset_bounds [OF e, of "1 / 10000" "1 / 500" 8000] by auto
  have g100: "tick_gap Scales_D (1 / 1000) (1 / 500) 10 10000 8000 100 = Inr v100"
    using v100(1) by (simp add: tick_gap_def)
  have g10: "tick_gap Scales_D (1 / 1000) (1 / 500) 10 10000 8000 10 = Inr v10"
    using v10(1) by (simp add: tick_gap_def)
  have b100: "9 \<le> v100" using v100(2) by simp
  have b10: "9 \<le> v10" using v10(2) by simp
  have sel: "pat_auto_sub_div (demo_geometry 8000 3) Scales_D (1 / 1000) (1 / 500) 10000 10
               = Inr (2, 5, 1)"
    using b10
    by (simp add: pat_auto_sub_div_def demo_geometry_fields TF_MIN_eq g10 min_tick_offset_def
          bind_res_def TF_BY_MIN_get_simps)
  show ?thesis
    using D_scale_small g100 b100 sel
    by (simp add: demo_geometry_fields min_tick_offset_def TF_BY_MIN_get_simps)
qed

subsection \<open>The decade-log scale from 1 to 10\<close>






















end
